theory Spec2Isabelle
  imports Main "HOL-Library.AList" "HOL-Library.Sublist" "HOL-Library.Char_ord"
    "HOL-Library.List_Lexorder"
begin

section \<open>icvcs: a shallow embedding of \<open>src/icvcs.py\<close>\<close>

text \<open>
  The program keeps all of its state in the file system below the current directory, so
  the state of the model is a directory tree plus the lines printed so far.

  \<^item> A path is the list of its components, relative to the current directory (the
    repository root): \<open>a/b.txt\<close> is \<open>[''a'', ''b.txt'']\<close>, the current directory is
    \<open>[]\<close>. \<open>os.path.join\<close> of two such paths is \<open>@\<close>, \<open>os.path.basename\<close> is the last
    component.
  \<^item> A version name or commit identifier is the string typed on the command line. The
    program joins it to a directory with \<open>os.path.join\<close> unchecked, so it may name a
    path of several components: \<open>join\<close> splits it at the separators. The components
    \<open>.\<close> and \<open>..\<close> are not resolved by the model: a statement that depends on them
    excludes them (\<open>proper\<close>).
  \<^item> A file holds either raw bytes (a user's file) or a JSON document written by
    \<open>json.dump\<close>; \<open>json.load\<close> of raw bytes raises a \<open>ValueError\<close> (its subclass
    \<open>JSONDecodeError\<close>, or \<open>UnicodeDecodeError\<close> when the bytes are not text), and a
    document that is not of the shape its reader subscripts raises as well.
  \<^item> Every uncaught Python exception is a value of \<open>exc\<close>; an operation returns the
    exception or its result together with the world as it is at that point, so the
    writes made before a crash stay visible.
  \<^item> Clock readings and the lines typed at \<open>input()\<close> prompts are parameters.
\<close>

subsection \<open>Documents and the directory tree\<close>

type_synonym path = "string list"

record repo_data =
  repo_name :: string
  files :: "path list"
  directories :: "(path \<times> path list) list"
  versions :: "string list"

record config =
  default_author :: string
  default_version_description :: string
  default_commit_message :: string

record commit_meta =
  commit_id :: string
  timestamp :: string
  message :: string
  author :: string

record version_meta =
  version_name :: string
  created_at :: string
  v_author :: string
  description :: string
  v_files :: "path list"

datatype json =
    RepoData repo_data
  | Config config
  | History "commit_meta list"
  | CommitMeta commit_meta
  | VersionMeta version_meta

datatype content = Raw string | Json json

datatype node = File content | Dir "(string \<times> node) list"

datatype exc =
    SystemExit
  | FileExistsError
  | FileNotFoundError
  | NotADirectoryError
  | IsADirectoryError
  | SameFileError
  | ShutilError
  | TypeError
  | ValueError
  | KeyError
  | UnicodeDecodeError

text \<open>The lines the modelled functions print, one constructor per \<open>print\<close> call.\<close>

datatype msg =
    No_repository_found
  | Repository_data_updated
  | Already_initialized string
  | Initialized string
  | File_added path
  | File_already_tracked path
  | Directory_added path
  | Directory_and_contents_added path
  | Path_does_not_exist path
  | File_removed path
  | File_not_tracked path
  | Directory_removed path
  | Directory_not_tracked path
  | Path_not_in_repository path
  | Version_name_required
  | Version_already_exists string
  | Version_overwritten string
  | Version_created string
  | Version_deleted string
  | Version_does_not_exist string
  | Unknown_version_command string
  | Warning_file_missing path
  | Warning_directory_missing path
  | Commit_created string
  | Commit_removed string
  | Commit_does_not_exist string
  | No_commits_to_push
  | Commit_pushed string
  | All_commits_cleared
  | Version_not_found string
  | Invalid_version_format string
  | Printed_file_lists "path list option" "path list option"
  | Comparing string string
  | Changes_in_file path string string
  | No_changes_in_file path

definition ICVCS_DIR :: path where
  "ICVCS_DIR = [''.icvcs'']"

definition COMMITS_DIR :: path where
  "COMMITS_DIR = ICVCS_DIR @ [''commits'']"

definition LATEST_DIR :: path where
  "LATEST_DIR = COMMITS_DIR @ [''latest'']"

definition VERSIONS_DIR :: path where
  "VERSIONS_DIR = ICVCS_DIR @ [''versions'']"

definition repo_data_path :: path where
  "repo_data_path = ICVCS_DIR @ [''repo_data.json'']"

definition config_path :: path where
  "config_path = ICVCS_DIR @ [''icvcs_config.json'']"

definition commit_history_path :: path where
  "commit_history_path = ICVCS_DIR @ [''commit_history.json'']"

text \<open>
  \<open>os.path.join(base, s)\<close> for a string \<open>s\<close> from the command line. \<open>components s\<close> are
  the names between the separators of \<open>s\<close>; empty ones (a doubled or trailing separator)
  name nothing. A string that starts with a separator is absolute and replaces the base:
  what it names lies outside the current directory, which the model keeps under the
  entry with the empty name, an entry no directory lists.
\<close>

function components :: "string \<Rightarrow> path" where
  "components [] = []"
| "components (c # cs) =
     (if c = CHR ''/'' then components cs
      else (c # takeWhile (\<lambda>x. x \<noteq> CHR ''/'') cs)
             # components (dropWhile (\<lambda>x. x \<noteq> CHR ''/'') cs))"
  by pat_completeness auto

termination
  by (relation "measure length") (auto simp: less_Suc_eq_le length_dropWhile_le)

definition join :: "path \<Rightarrow> string \<Rightarrow> path" where
  "join base s = (if prefix ''/'' s then [] # components s else base @ components s)"

text \<open>
  A proper name: relative, and without the components \<open>.\<close> and \<open>..\<close>, so that joined to
  a directory it names a path at or below that directory.
\<close>

definition proper :: "string \<Rightarrow> bool" where
  "proper s = (\<not> prefix ''/'' s \<and> ''.'' \<notin> set (components s) \<and> ''..'' \<notin> set (components s))"

text \<open>\<open>lookup\<close> follows a path from a node; a directory lists its entries by name.\<close>

fun lookup :: "node \<Rightarrow> path \<Rightarrow> node option" where
  "lookup n [] = Some n"
| "lookup (File d) (c # cs) = None"
| "lookup (Dir es) (c # cs) = (case map_of es c of None \<Rightarrow> None | Some n \<Rightarrow> lookup n cs)"

text \<open>
  \<open>plant p new\<close> puts \<open>new\<close> at \<open>p\<close>, replacing what is there and creating the missing
  directories on the way; a file on the way blocks it. \<open>prune p\<close> removes the entry at \<open>p\<close>.
\<close>

fun plant :: "path \<Rightarrow> node \<Rightarrow> node \<Rightarrow> node" where
  "plant [] new old = new"
| "plant (c # cs) new (File d) = File d"
| "plant (c # cs) new (Dir es) =
     Dir (AList.update c
       (plant cs new (case map_of es c of None \<Rightarrow> Dir [] | Some n \<Rightarrow> n)) es)"

fun prune :: "path \<Rightarrow> node \<Rightarrow> node" where
  "prune [] n = n"
| "prune (c # cs) (File d) = File d"
| "prune (c # cs) (Dir es) =
     (if cs = [] then Dir (AList.delete c es)
      else (case map_of es c of
              None \<Rightarrow> Dir es
            | Some n \<Rightarrow> Dir (AList.update c (prune cs n) es)))"

definition is_file :: "node \<Rightarrow> path \<Rightarrow> bool" where
  "is_file d p = (case lookup d p of Some (File c) \<Rightarrow> True | _ \<Rightarrow> False)"

definition is_dir :: "node \<Rightarrow> path \<Rightarrow> bool" where
  "is_dir d p = (case lookup d p of Some (Dir es) \<Rightarrow> True | _ \<Rightarrow> False)"

text \<open>\<open>blocked d p\<close>: on the way to \<open>p\<close>, a proper ancestor of \<open>p\<close> is a regular file.\<close>

fun blocked :: "node \<Rightarrow> path \<Rightarrow> bool" where
  "blocked n [] = False"
| "blocked (File c) (x # xs) = True"
| "blocked (Dir es) (x # xs) = (case map_of es x of None \<Rightarrow> False | Some n \<Rightarrow> blocked n xs)"

text \<open>
  \<open>os.walk\<close>, top down: each directory with the names of the regular files in it, a
  directory before its subdirectories.
\<close>

fun walk :: "path \<Rightarrow> node \<Rightarrow> (path \<times> string list) list" where
  "walk p (File c) = []"
| "walk p (Dir es) =
     (p, map fst (filter (\<lambda>e. case snd e of File c \<Rightarrow> True | Dir x \<Rightarrow> False) es))
       # concat (map (\<lambda>e. walk (p @ [fst e]) (snd e)) es)"

subsection \<open>Worlds and actions\<close>

text \<open>
  A world: the directory tree, the lines printed so far, and the number of writes made
  to the tree so far (a counter the program does not have; it makes "no write occurred"
  a statement about worlds).
\<close>

record world =
  disk :: node
  out :: "msg list"
  writes :: nat

type_synonym 'a act = "world \<Rightarrow> (exc + 'a) \<times> world"

definition ret :: "'a \<Rightarrow> 'a act" where
  "ret a w = (Inr a, w)"

definition raise :: "exc \<Rightarrow> 'a act" where
  "raise e w = (Inl e, w)"

definition bind :: "'a act \<Rightarrow> ('a \<Rightarrow> 'b act) \<Rightarrow> 'b act" where
  "bind m f w = (case m w of (Inl e, w') \<Rightarrow> (Inl e, w') | (Inr a, w') \<Rightarrow> f a w')"

definition seq :: "unit act \<Rightarrow> 'b act \<Rightarrow> 'b act" where
  "seq m k = bind m (\<lambda>u. k)"

definition gets :: "(node \<Rightarrow> 'a) \<Rightarrow> 'a act" where
  "gets f w = (Inr (f (disk w)), w)"

definition modify :: "(node \<Rightarrow> node) \<Rightarrow> unit act" where
  "modify f w = (Inr (), w\<lparr>disk := f (disk w), writes := Suc (writes w)\<rparr>)"

definition print :: "msg \<Rightarrow> unit act" where
  "print m w = (Inr (), w\<lparr>out := out w @ [m]\<rparr>)"

fun foreach :: "'a list \<Rightarrow> ('a \<Rightarrow> unit act) \<Rightarrow> unit act" where
  "foreach [] f = ret ()"
| "foreach (x # xs) f = seq (f x) (foreach xs f)"

text \<open>A \<open>try\<close> block with one \<open>except\<close> clause for the exception \<open>e\<close>.\<close>

definition catch :: "'a act \<Rightarrow> exc \<Rightarrow> 'a act \<Rightarrow> 'a act" where
  "catch m e h w = (case m w of (Inl x, w') \<Rightarrow> if x = e then h w' else (Inl x, w') | r \<Rightarrow> r)"

subsection \<open>The file-system calls the program makes\<close>

definition path_exists :: "path \<Rightarrow> bool act" where
  "path_exists p = gets (\<lambda>d. lookup d p \<noteq> None)"

definition isfile :: "path \<Rightarrow> bool act" where
  "isfile p = gets (\<lambda>d. is_file d p)"

definition isdir :: "path \<Rightarrow> bool act" where
  "isdir p = gets (\<lambda>d. is_dir d p)"

text \<open>\<open>os.listdir\<close>.\<close>

definition listdir :: "path \<Rightarrow> string list act" where
  "listdir p = bind (gets (\<lambda>d. (lookup d p, blocked d p))) (\<lambda>(r, b). case r of
       None \<Rightarrow> raise (if b then NotADirectoryError else FileNotFoundError)
     | Some (File c) \<Rightarrow> raise NotADirectoryError
     | Some (Dir es) \<Rightarrow> ret (map fst es))"

text \<open>\<open>open(p, 'rb').read()\<close>: the content of a regular file.\<close>

definition read_file :: "path \<Rightarrow> content act" where
  "read_file p = bind (gets (\<lambda>d. (lookup d p, blocked d p))) (\<lambda>(r, b). case r of
       None \<Rightarrow> raise (if b then NotADirectoryError else FileNotFoundError)
     | Some (Dir es) \<Rightarrow> raise IsADirectoryError
     | Some (File c) \<Rightarrow> ret c)"

text \<open>
  \<open>json.load(open(p))\<close>. A file that holds no document makes it raise
  \<open>UnicodeDecodeError\<close> or \<open>JSONDecodeError\<close>, both of the class \<open>ValueError\<close>.
\<close>

definition read_json :: "path \<Rightarrow> json act" where
  "read_json p = bind (read_file p) (\<lambda>c. case c of
       Raw s \<Rightarrow> raise ValueError
     | Json j \<Rightarrow> ret j)"

text \<open>
  \<open>open(p, 'w')\<close> and a write: the directory of \<open>p\<close> must exist, and \<open>p\<close> must not be
  a directory.
\<close>

definition write_file :: "path \<Rightarrow> content \<Rightarrow> unit act" where
  "write_file p c = bind (gets (\<lambda>d. (blocked d p, is_dir d (butlast p), is_dir d p)))
     (\<lambda>(b, parent, self).
        if p = [] \<or> self then raise IsADirectoryError
        else if b then raise NotADirectoryError
        else if \<not> parent then raise FileNotFoundError
        else modify (plant p (File c)))"

text \<open>\<open>os.makedirs\<close> with \<open>exist_ok=False\<close>.\<close>

definition makedirs :: "path \<Rightarrow> unit act" where
  "makedirs p = bind (gets (\<lambda>d. (lookup d p \<noteq> None, blocked d p))) (\<lambda>(e, b).
        if e then raise FileExistsError
        else if b then raise NotADirectoryError
        else modify (plant p (Dir [])))"

text \<open>\<open>shutil.rmtree\<close>.\<close>

definition rmtree :: "path \<Rightarrow> unit act" where
  "rmtree p = bind (gets (\<lambda>d. (lookup d p, blocked d p))) (\<lambda>(r, b). case r of
       None \<Rightarrow> raise (if b then NotADirectoryError else FileNotFoundError)
     | Some (File c) \<Rightarrow> raise NotADirectoryError
     | Some (Dir es) \<Rightarrow> modify (prune p))"

text \<open>
  \<open>shutil.copy(src, dst)\<close>: when \<open>dst\<close> is a directory the file goes into it under the
  base name of \<open>src\<close>; copying a file onto itself raises \<open>SameFileError\<close>.
\<close>

definition copy :: "path \<Rightarrow> path \<Rightarrow> unit act" where
  "copy src dst = bind (isdir dst) (\<lambda>into.
     let target = (if into then dst @ (if src = [] then [] else [last src]) else dst) in
     if target = src then bind (read_file src) (\<lambda>c. raise SameFileError)
     else bind (read_file src) (\<lambda>c. write_file target c))"

text \<open>
  \<open>shutil.copytree(src, dst)\<close>: \<open>src\<close> must be a directory and \<open>dst\<close> must not exist;
  the parents of \<open>dst\<close> are created. When \<open>dst\<close> lies inside \<open>src\<close> Python copies into
  its own output until a path is too long and raises \<open>shutil.Error\<close>, leaving a tree
  below \<open>dst\<close> that the model does not describe: it keeps the source's entries as they
  were listed and raises.
\<close>

definition copytree :: "path \<Rightarrow> path \<Rightarrow> unit act" where
  "copytree src dst = bind (gets (\<lambda>d. (lookup d src, blocked d src))) (\<lambda>(r, b). case r of
       None \<Rightarrow> raise (if b then NotADirectoryError else FileNotFoundError)
     | Some (File c) \<Rightarrow> raise NotADirectoryError
     | Some (Dir es) \<Rightarrow>
         bind (gets (\<lambda>d. (lookup d dst \<noteq> None, blocked d dst))) (\<lambda>(e, b').
           if e then raise FileExistsError
           else if b' then raise NotADirectoryError
           else seq (modify (plant dst (Dir es)))
                  (if prefix src dst then raise ShutilError else ret ())))"

subsection \<open>Clock readings\<close>

text \<open>
  \<open>datetime.now()\<close> is a parameter of the operations that read the clock.
  \<open>strftime_id\<close> is \<open>strftime('%Y%m%d%H%M%S')\<close>, \<open>isoformat\<close> the method of that name.
\<close>

record datetime =
  year :: nat
  month :: nat
  day :: nat
  hour :: nat
  minute :: nat
  second :: nat
  microsecond :: nat

definition digit :: "nat \<Rightarrow> char" where
  "digit n = ''0123456789'' ! (n mod 10)"

definition pad2 :: "nat \<Rightarrow> string" where
  "pad2 n = [digit (n div 10), digit n]"

definition pad4 :: "nat \<Rightarrow> string" where
  "pad4 n = [digit (n div 1000), digit (n div 100), digit (n div 10), digit n]"

definition pad6 :: "nat \<Rightarrow> string" where
  "pad6 n = [digit (n div 100000), digit (n div 10000), digit (n div 1000),
             digit (n div 100), digit (n div 10), digit n]"

definition strftime_id :: "datetime \<Rightarrow> string" where
  "strftime_id t = pad4 (year t) @ pad2 (month t) @ pad2 (day t)
                   @ pad2 (hour t) @ pad2 (minute t) @ pad2 (second t)"

definition isoformat :: "datetime \<Rightarrow> string" where
  "isoformat t = pad4 (year t) @ ''-'' @ pad2 (month t) @ ''-'' @ pad2 (day t) @ ''T''
                 @ pad2 (hour t) @ '':'' @ pad2 (minute t) @ '':'' @ pad2 (second t)
                 @ (if microsecond t = 0 then [] else ''.'' @ pad6 (microsecond t))"

subsection \<open>Loading and saving the documents\<close>

text \<open>Python's \<open>x or y\<close> on strings.\<close>

definition or_else :: "string \<Rightarrow> string \<Rightarrow> string" where
  "or_else x y = (if x = [] then y else x)"

text \<open>\<open>os.path.join(d, os.path.basename(p))\<close>; the base name of \<open>.\<close> is \<open>.\<close> itself.\<close>

definition join_basename :: "path \<Rightarrow> path \<Rightarrow> path" where
  "join_basename d p = d @ (if p = [] then [] else [last p])"

text \<open>\<open>xs.remove(x)\<close> on a Python list.\<close>

definition list_remove :: "'a \<Rightarrow> 'a list \<Rightarrow> 'a list act" where
  "list_remove x xs = (if x \<in> set xs then ret (remove1 x xs) else raise ValueError)"

definition load_repo_data :: "repo_data act" where
  "load_repo_data = bind (path_exists repo_data_path) (\<lambda>e.
     if \<not> e then seq (print No_repository_found) (raise SystemExit)
     else bind (read_json repo_data_path) (\<lambda>j. case j of
         RepoData r \<Rightarrow> ret r
       | _ \<Rightarrow> raise TypeError))"

definition save_repo_data :: "repo_data \<Rightarrow> unit act" where
  "save_repo_data r =
     seq (write_file repo_data_path (Json (RepoData r))) (print Repository_data_updated)"

definition default_config :: config where
  "default_config = \<lparr>default_author = ''Unknown'',
     default_version_description = ''No description provided'',
     default_commit_message = ''No commit message provided''\<rparr>"

definition load_config :: "config act" where
  "load_config = bind (path_exists config_path) (\<lambda>e.
     if e then bind (read_json config_path) (\<lambda>j. case j of
         Config c \<Rightarrow> ret c
       | _ \<Rightarrow> raise TypeError)
     else ret default_config)"

subsection \<open>\<open>init\<close>, \<open>add\<close>, \<open>remove\<close>\<close>

text \<open>
  \<open>init\<close>; the three strings are the answers to its prompts. The prompt for the
  default commit message has its default inside the call of \<open>input\<close>, so an empty answer
  stays empty.
\<close>

definition init :: "string \<Rightarrow> string \<Rightarrow> string \<Rightarrow> string \<Rightarrow> unit act" where
  "init name in_author in_description in_message =
     bind (path_exists ICVCS_DIR) (\<lambda>e.
       if e then print (Already_initialized name)
       else
         seq (makedirs ICVCS_DIR) (seq (makedirs VERSIONS_DIR) (seq (makedirs COMMITS_DIR)
        (seq (makedirs LATEST_DIR)
        (seq (save_repo_data
               \<lparr>repo_name = name, files = [], directories = [], versions = []\<rparr>)
        (seq (write_file config_path (Json (Config
               \<lparr>default_author = or_else in_author ''Unknown'',
                default_version_description =
                  or_else in_description ''No description provided'',
                default_commit_message = in_message\<rparr>)))
        (seq (write_file commit_history_path (Json (History [])))
             (print (Initialized name)))))))))"

text \<open>The capture list of a directory, extended by the walked files it does not hold yet.\<close>

fun capture :: "path list \<Rightarrow> path list \<Rightarrow> path list" where
  "capture acc [] = acc"
| "capture acc (f # fs) = capture (if f \<in> set acc then acc else acc @ [f]) fs"

definition walked_files :: "(path \<times> string list) list \<Rightarrow> path list" where
  "walked_files ws = concat (map (\<lambda>(root, names). map (\<lambda>name. root @ [name]) names) ws)"

definition add :: "path \<Rightarrow> bool \<Rightarrow> unit act" where
  "add p with_files =
     bind load_repo_data (\<lambda>repo_data.
     bind (isfile p) (\<lambda>f.
     bind (isdir p) (\<lambda>d.
     bind
       (if f then
          (if p \<notin> set (files repo_data)
           then seq (print (File_added p)) (ret (repo_data\<lparr>files := files repo_data @ [p]\<rparr>))
           else seq (print (File_already_tracked p)) (ret repo_data))
        else if d then
          bind (if map_of (directories repo_data) p = None
                then seq (print (Directory_added p))
                       (ret (repo_data\<lparr>directories := directories repo_data @ [(p, [])]\<rparr>))
                else ret repo_data) (\<lambda>repo_data.
          if with_files then
            bind (gets (\<lambda>dk. case lookup dk p of None \<Rightarrow> [] | Some n \<Rightarrow> walk p n)) (\<lambda>ws.
            seq (print (Directory_and_contents_added p))
              (ret (repo_data\<lparr>directories := AList.update p
                 (capture (case map_of (directories repo_data) p of None \<Rightarrow> [] | Some l \<Rightarrow> l)
                    (walked_files ws))
                 (directories repo_data)\<rparr>)))
          else ret repo_data)
        else seq (print (Path_does_not_exist p)) (ret repo_data))
       (\<lambda>repo_data. save_repo_data repo_data))))"

definition remove_path :: "path \<Rightarrow> unit act" where
  "remove_path p =
     bind load_repo_data (\<lambda>repo_data.
     bind (isfile p) (\<lambda>f.
     bind (isdir p) (\<lambda>d.
     bind
       (if f then
          (if p \<in> set (files repo_data)
           then seq (print (File_removed p))
                  (ret (repo_data\<lparr>files := remove1 p (files repo_data)\<rparr>))
           else seq (print (File_not_tracked p)) (ret repo_data))
        else if d then
          (if map_of (directories repo_data) p \<noteq> None
           then seq (print (Directory_removed p))
                  (ret (repo_data\<lparr>directories := AList.delete p (directories repo_data)\<rparr>))
           else seq (print (Directory_not_tracked p)) (ret repo_data))
        else seq (print (Path_not_in_repository p)) (ret repo_data))
       (\<lambda>repo_data. save_repo_data repo_data))))"

subsection \<open>Versions\<close>

text \<open>
  \<open>version(command, version_name, force)\<close>. An absent name is the empty string. The
  name goes into \<open>os.path.join\<close> as it was typed, and into the list of versions and
  the messages as well. The clock reading and the two answers typed at the prompts are
  parameters.
  \<open>version_from\<close> is the body of the function after its first two lines, which load
  the index and the configuration.
\<close>

definition version_from ::
  "repo_data \<Rightarrow> config \<Rightarrow> string \<Rightarrow> string \<Rightarrow> bool \<Rightarrow> datetime \<Rightarrow> string \<Rightarrow> string
     \<Rightarrow> unit act" where
  "version_from repo_data config command name force now in_author in_description =
    (if command = ''create'' then
       (if name = [] then print Version_name_required
        else
          let version_path = join VERSIONS_DIR name;
              version_metadata_path = version_path @ [''metadata.json'']
          in
          bind (path_exists version_path) (\<lambda>e.
          if e \<and> \<not> force then print (Version_already_exists name)
          else
            bind (if e then
                    seq (print (Version_overwritten name))
                   (seq (rmtree version_path)
                        (list_remove name (versions repo_data)))
                  else ret (versions repo_data)) (\<lambda>vs.
            seq (makedirs version_path)
           (seq (foreach (files repo_data) (\<lambda>file.
                   bind (path_exists file) (\<lambda>e.
                     if e then copy file version_path else ret ())))
           (seq (foreach (directories repo_data) (\<lambda>(directory, captured).
                   bind (path_exists directory) (\<lambda>e.
                     if e then copytree directory (join_basename version_path directory)
                     else ret ())))
           (seq (write_file version_metadata_path (Json (VersionMeta
                   \<lparr>version_name = name,
                    created_at = isoformat now,
                    v_author = or_else in_author (default_author config),
                    description =
                      or_else in_description (default_version_description config),
                    v_files = files repo_data\<rparr>)))
           (seq (save_repo_data (repo_data\<lparr>versions := vs @ [name]\<rparr>))
                (print (Version_created name)))))))))
     else if command = ''delete'' then
       (if name = [] then print Version_name_required
        else
          let version_path = join VERSIONS_DIR name in
          bind (path_exists version_path) (\<lambda>e.
          if e then
            seq (rmtree version_path)
           (bind (list_remove name (versions repo_data)) (\<lambda>vs.
            seq (save_repo_data (repo_data\<lparr>versions := vs\<rparr>))
                (print (Version_deleted name))))
          else print (Version_does_not_exist name)))
     else print (Unknown_version_command command))"

definition version ::
  "string \<Rightarrow> string \<Rightarrow> bool \<Rightarrow> datetime \<Rightarrow> string \<Rightarrow> string \<Rightarrow> unit act" where
  "version command name force now in_author in_description =
     bind load_repo_data (\<lambda>repo_data.
     bind load_config (\<lambda>config.
       version_from repo_data config command name force now in_author in_description))"

subsection \<open>Commits and the latest pointer\<close>

text \<open>
  \<open>commit()\<close>. \<open>now\<close> is the clock reading the identifier is formatted from, \<open>now'\<close> the
  one of the metadata's timestamp; the two strings are the answers to the prompts.
  \<open>commit_from\<close> is the body after the two lines that load the index and the
  configuration.
\<close>

definition commit_from ::
  "repo_data \<Rightarrow> config \<Rightarrow> datetime \<Rightarrow> datetime \<Rightarrow> string \<Rightarrow> string \<Rightarrow> unit act" where
  "commit_from repo_data config now now' in_message in_author =
    (let cid = strftime_id now;
         commit_dir = COMMITS_DIR @ [cid]
     in
     seq (makedirs commit_dir)
    (seq (foreach (files repo_data) (\<lambda>file.
            bind (path_exists file) (\<lambda>e.
              if e then copy file commit_dir else print (Warning_file_missing file))))
    (seq (foreach (directories repo_data) (\<lambda>(directory, captured).
            bind (path_exists directory) (\<lambda>e.
              if e then copytree directory (join_basename commit_dir directory)
              else print (Warning_directory_missing directory))))
    (let metadata = \<lparr>commit_id = cid,
                      timestamp = isoformat now',
                      message = or_else in_message (default_commit_message config),
                      author = or_else in_author (default_author config)\<rparr>
     in
     seq (write_file (commit_dir @ [''metadata.json'']) (Json (CommitMeta metadata)))
    (bind (read_json commit_history_path) (\<lambda>j. case j of
         History commit_history \<Rightarrow>
           seq (write_file commit_history_path (Json (History (commit_history @ [metadata]))))
               (print (Commit_created cid))
       | _ \<Rightarrow> raise TypeError))))))"

definition commit :: "datetime \<Rightarrow> datetime \<Rightarrow> string \<Rightarrow> string \<Rightarrow> unit act" where
  "commit now now' in_message in_author =
     bind load_repo_data (\<lambda>repo_data.
     bind load_config (\<lambda>config.
       commit_from repo_data config now now' in_message in_author))"

definition remove_commit :: "string \<Rightarrow> unit act" where
  "remove_commit cid =
     (let commit_dir = join COMMITS_DIR cid in
      bind (path_exists commit_dir) (\<lambda>e.
        if e then seq (rmtree commit_dir) (print (Commit_removed cid))
        else print (Commit_does_not_exist cid)))"

text \<open>
  \<open>push(commit_id)\<close>; an absent identifier is the empty string. The first part selects
  the commit and its directory, or prints why there is none and returns. A name that
  \<open>os.listdir\<close> returned is joined as the entry it is.
\<close>

definition push_select :: "string \<Rightarrow> (string \<times> path) option act" where
  "push_select cid =
     bind (listdir COMMITS_DIR) (\<lambda>l.
     if l = [] then seq (print No_commits_to_push) (ret None)
     else if cid \<noteq> [] then
       (let commit_dir = join COMMITS_DIR cid in
        bind (path_exists commit_dir) (\<lambda>e.
          if \<not> e then seq (print (Commit_does_not_exist cid)) (ret None)
          else ret (Some (cid, commit_dir))))
     else
       bind (listdir COMMITS_DIR) (\<lambda>l'.
         let commits = remove1 ''latest'' (sort l') in
         if commits = [] then seq (print No_commits_to_push) (ret None)
         else ret (Some (last commits, COMMITS_DIR @ [last commits]))))"

text \<open>The body of the loop of \<open>push\<close> over the entries of the commit's directory.\<close>

definition push_item :: "path \<Rightarrow> string \<Rightarrow> unit act" where
  "push_item commit_dir item =
     (let src_path = commit_dir @ [item]; dest_path = LATEST_DIR @ [item]
      in bind (isdir src_path) (\<lambda>d.
           if d then copytree src_path dest_path else copy src_path dest_path))"

definition push :: "string \<Rightarrow> unit act" where
  "push cid =
     bind (push_select cid) (\<lambda>sel. case sel of
         None \<Rightarrow> ret ()
       | Some (cid', commit_dir) \<Rightarrow>
           seq (bind (path_exists LATEST_DIR) (\<lambda>e. if e then rmtree LATEST_DIR else ret ()))
          (seq (makedirs LATEST_DIR)
          (seq (bind (listdir commit_dir) (\<lambda>items. foreach items (push_item commit_dir)))
               (print (Commit_pushed cid')))))"

definition clear_commits :: "unit act" where
  "clear_commits =
     seq (bind (listdir COMMITS_DIR) (\<lambda>l.
            foreach l (\<lambda>cid.
              if cid \<noteq> ''latest'' then
                (let commit_dir = COMMITS_DIR @ [cid] in
                 bind (path_exists commit_dir) (\<lambda>e.
                   if e then rmtree commit_dir else ret ()))
              else ret ())))
         (print All_commits_cleared)"

subsection \<open>Status\<close>

text \<open>
  Path strings, where the source tests them as strings: \<open>root_str\<close> is the directory
  name \<open>os.walk('.')\<close> yields (\<open>.\<close>, \<open>./a\<close>, \<open>./a/b\<close>), \<open>path_str\<close> is the result of
  \<open>os.path.relpath\<close>; \<open>contains s t\<close> is Python's \<open>s in t\<close> on strings.
\<close>

definition root_str :: "path \<Rightarrow> string" where
  "root_str p = ''.'' @ concat (map (\<lambda>c. ''/'' @ c) p)"

fun path_str :: "path \<Rightarrow> string" where
  "path_str [] = ''.''"
| "path_str [c] = c"
| "path_str (c # cs) = c @ ''/'' @ path_str cs"

fun contains :: "string \<Rightarrow> string \<Rightarrow> bool" where
  "contains s [] = (s = [])"
| "contains s (c # cs) = (prefix s (c # cs) \<or> contains s cs)"

definition get_last_commit_info :: "commit_meta option act" where
  "get_last_commit_info =
     bind (path_exists commit_history_path) (\<lambda>e.
       if \<not> e then ret None
       else bind (read_json commit_history_path) (\<lambda>j. case j of
           History commit_history \<Rightarrow>
             ret (if commit_history = [] then None else Some (last commit_history))
         | _ \<Rightarrow> raise TypeError))"

text \<open>
  The loop of \<open>status\<close> over the tracked files, with the lists \<open>modified_files\<close> and
  \<open>deleted_files\<close> it appends to.
\<close>

fun status_loop :: "path list \<Rightarrow> path list \<Rightarrow> path list \<Rightarrow> (path list \<times> path list) act" where
  "status_loop [] modified_files deleted_files = ret (modified_files, deleted_files)"
| "status_loop (file # rest) modified_files deleted_files =
     bind (path_exists file) (\<lambda>e.
       if \<not> e then status_loop rest modified_files (deleted_files @ [file])
       else bind (path_exists (LATEST_DIR @ file)) (\<lambda>e'.
         if \<not> e' then status_loop rest (modified_files @ [file]) deleted_files
         else
           bind (read_file file) (\<lambda>current_content.
           bind (read_file (LATEST_DIR @ file)) (\<lambda>commit_content.
             if current_content \<noteq> commit_content
             then status_loop rest (modified_files @ [file]) deleted_files
             else status_loop rest modified_files deleted_files))))"

record status_report =
  repository :: string
  tracked_count :: nat
  total_versions :: nat
  last_commit :: "commit_meta option"
  untracked_files :: "path list"
  modified :: "path list"
  deleted :: "path list"
  staged :: "path list"

text \<open>
  The first loop of \<open>status\<close>: the files \<open>os.walk('.')\<close> finds, except those in a
  directory whose name as \<open>os.walk\<close> yields it contains \<open>.icvcs\<close>.
\<close>

definition working_directory_files :: "(path \<times> string list) list \<Rightarrow> path list" where
  "working_directory_files ws =
     remdups (walked_files
       (filter (\<lambda>(root, names). \<not> contains ''.icvcs'' (root_str root)) ws))"

text \<open>
  \<open>status()\<close>; what it prints is returned as a record. The sets of the source are lists
  without repetitions here.
\<close>

definition status :: "status_report act" where
  "status =
     bind load_repo_data (\<lambda>repo_data.
     let tracked_files = remdups (files repo_data) in
     bind (gets (walk [])) (\<lambda>ws.
     let working_files = working_directory_files ws;
         untracked = filter (\<lambda>file. file \<notin> set tracked_files
                                \<and> \<not> prefix ''.icvcs'' (path_str file)) working_files
     in
     bind (status_loop tracked_files [] []) (\<lambda>(modified_files, deleted_files).
     let staged_files = filter (\<lambda>file. file \<in> set working_files
                                 \<and> file \<notin> set modified_files
                                 \<and> file \<notin> set deleted_files) tracked_files
     in
     bind get_last_commit_info (\<lambda>info.
     ret \<lparr>repository = repo_name repo_data,
          tracked_count = length tracked_files,
          total_versions = length (versions repo_data),
          last_commit = info,
          untracked_files = untracked,
          modified = modified_files,
          deleted = deleted_files,
          staged = staged_files\<rparr>))))"

subsection \<open>Comparing two versions\<close>

text \<open>
  Reading a file in text mode decodes its bytes with the platform's encoding, which is
  a parameter: \<open>decode\<close> gives the text of raw bytes, or \<open>None\<close> where Python raises
  \<open>UnicodeDecodeError\<close>; \<open>dumps\<close> is the text \<open>json.dump\<close> wrote for a document.
\<close>

record codec =
  decode :: "string \<Rightarrow> string option"
  dumps :: "json \<Rightarrow> string"

definition read_text :: "codec \<Rightarrow> path \<Rightarrow> string act" where
  "read_text cd p = bind (read_file p) (\<lambda>c. case c of
       Json j \<Rightarrow> ret (dumps cd j)
     | Raw bytes \<Rightarrow> (case decode cd bytes of
           None \<Rightarrow> raise UnicodeDecodeError
         | Some s \<Rightarrow> ret s))"

definition load_version_files :: "string \<Rightarrow> path list option act" where
  "load_version_files version_id =
     catch
       (catch
          (bind (read_json (join VERSIONS_DIR version_id @ [''metadata.json''])) (\<lambda>j. case j of
               VersionMeta m \<Rightarrow> ret (Some (v_files m))
             | RepoData r \<Rightarrow> ret (Some (files r))
             | History h \<Rightarrow> (if h = [] then ret (Some []) else raise KeyError)
             | _ \<Rightarrow> raise KeyError))
          FileNotFoundError
          (seq (print (Version_not_found version_id)) (ret None)))
       KeyError
       (seq (print (Invalid_version_format version_id)) (ret None))"

definition load_file_content :: "codec \<Rightarrow> string \<Rightarrow> path \<Rightarrow> string option act" where
  "load_file_content cd version_id file_path =
     catch (bind (read_text cd (join VERSIONS_DIR version_id @ file_path)) (\<lambda>s. ret (Some s)))
       FileNotFoundError (ret None)"

text \<open>Python's \<open>c or ""\<close> on a string or \<open>None\<close>.\<close>

definition or_empty :: "string option \<Rightarrow> string" where
  "or_empty c = (case c of None \<Rightarrow> [] | Some s \<Rightarrow> s)"

text \<open>
  \<open>compare_versions\<close>; \<open>compare_file\<close> is the body of its loop. The lines of the unified
  diff \<open>show_diff\<close> prints are a function of the two texts; the message
  \<open>Changes_in_file\<close> carries the texts themselves.
\<close>

definition compare_file :: "codec \<Rightarrow> string \<Rightarrow> string \<Rightarrow> path \<Rightarrow> unit act" where
  "compare_file cd version1 version2 file =
     bind (load_file_content cd version1 file) (\<lambda>c1.
     bind (load_file_content cd version2 file) (\<lambda>c2.
     let content1 = or_empty c1; content2 = or_empty c2 in
     if content1 \<noteq> content2 then print (Changes_in_file file content1 content2)
     else print (No_changes_in_file file)))"

definition compare_versions :: "codec \<Rightarrow> string \<Rightarrow> string \<Rightarrow> unit act" where
  "compare_versions cd version1 version2 =
     bind (load_version_files version1) (\<lambda>files1.
     bind (load_version_files version2) (\<lambda>files2.
     seq (print (Printed_file_lists files1 files2))
       (case (files1, files2) of
          (Some fs1, Some fs2) \<Rightarrow>
            seq (print (Comparing version1 version2))
              (foreach (sort_key path_str (remdups (fs1 @ fs2)))
                 (compare_file cd version1 version2))
        | _ \<Rightarrow> ret ())))"

subsection \<open>Laws of the actions\<close>

lemma bind_ret [simp]: "bind (ret a) f = f a"
  by (rule ext) (simp add: bind_def ret_def)

lemma bind_raise [simp]: "bind (raise e) f = raise e"
  by (rule ext) (simp add: bind_def raise_def)

lemma bind_gets [simp]: "bind (gets g) f w = f (g (disk w)) w"
  by (simp add: bind_def gets_def)

lemma bind_modify [simp]:
  "bind (modify g) f w = f () (w\<lparr>disk := g (disk w), writes := Suc (writes w)\<rparr>)"
  by (simp add: bind_def modify_def)

lemma bind_print [simp]: "bind (print m) f w = f () (w\<lparr>out := out w @ [m]\<rparr>)"
  by (simp add: bind_def print_def)

lemma bind_assoc [simp]: "bind (bind m f) g = bind m (\<lambda>a. bind (f a) g)"
  by (rule ext) (simp add: bind_def split: prod.splits sum.splits)

lemma bind_if [simp]: "bind (if c then m else m') f = (if c then bind m f else bind m' f)"
  by simp

subsection \<open>Paths that do not lie on one branch\<close>

definition apart :: "path \<Rightarrow> path \<Rightarrow> bool" where
  "apart p q = (\<not> prefix p q \<and> \<not> prefix q p)"

lemma apart_Cons [simp]: "apart (c # cs) (d # ds) = (c \<noteq> d \<or> apart cs ds)"
  by (auto simp: apart_def)

lemma apart_Nil [simp]: "\<not> apart [] q" "\<not> apart p []"
  by (simp_all add: apart_def)

lemma apart_sym: "apart p q = apart q p"
  by (auto simp: apart_def)

lemma apart_append: "apart p q \<Longrightarrow> apart (p @ r) q"
proof (induction p arbitrary: q)
  case Nil
  then show ?case by simp
next
  case (Cons c cs)
  then show ?case by (cases q) auto
qed

lemma apart_base: "apart (b @ p) (b @ q) = apart p q"
  by (induction b) simp_all

subsection \<open>The tree operations\<close>

lemma lookup_append:
  "lookup d (p @ q) = (case lookup d p of None \<Rightarrow> None | Some n \<Rightarrow> lookup n q)"
proof (induction p arbitrary: d)
  case Nil
  then show ?case by simp
next
  case (Cons c cs)
  then show ?case by (cases d) (simp_all split: option.splits)
qed

lemma lookup_empty_dir: "qs \<noteq> [] \<Longrightarrow> lookup (Dir []) qs = None"
  by (cases qs) simp_all

lemma lookup_plant_apart: "apart p q \<Longrightarrow> lookup (plant p n d) q = lookup d q"
proof (induction p arbitrary: q d)
  case Nil
  then show ?case by simp
next
  case (Cons c cs)
  show ?case
  proof (cases q)
    case Nil
    with Cons.prems show ?thesis by simp
  next
    case q: (Cons c' qs)
    show ?thesis
    proof (cases d)
      case (File x)
      then show ?thesis by simp
    next
      case (Dir es)
      show ?thesis
      proof (cases "c' = c")
        case False
        with Dir q show ?thesis by (simp add: update_conv')
      next
        case True
        with Cons.prems q have ap: "apart cs qs" by simp
        then have "qs \<noteq> []" by auto
        with Cons.IH [OF ap] Dir q True show ?thesis
          by (simp add: update_conv' lookup_empty_dir split: option.splits)
      qed
    qed
  qed
qed

lemma lookup_prune_apart: "apart p q \<Longrightarrow> lookup (prune p d) q = lookup d q"
proof (induction p arbitrary: q d)
  case Nil
  then show ?case by simp
next
  case (Cons c cs)
  show ?case
  proof (cases q)
    case Nil
    with Cons.prems show ?thesis by simp
  next
    case q: (Cons c' qs)
    show ?thesis
    proof (cases d)
      case (File x)
      then show ?thesis by simp
    next
      case (Dir es)
      show ?thesis
      proof (cases "c' = c")
        case False
        with Dir q show ?thesis by (simp add: update_conv' delete_conv' split: option.splits)
      next
        case True
        with Cons.prems q have ap: "apart cs qs" by simp
        then have "cs \<noteq> []" by auto
        with Cons.IH [OF ap] Dir q True show ?thesis
          by (simp add: update_conv' split: option.splits)
      qed
    qed
  qed
qed

lemma update_same: "map_of es c = Some n \<Longrightarrow> AList.update c n es = es"
  by (induction es) (auto split: if_splits)

lemma plant_same: "lookup d p = Some n \<Longrightarrow> plant p n d = d"
proof (induction p arbitrary: d)
  case Nil
  then show ?case by simp
next
  case (Cons c cs)
  then show ?case
    by (cases d) (auto simp: update_same split: option.splits)
qed

lemma blocked_empty_dir [simp]: "\<not> blocked (Dir []) p"
  by (cases p) simp_all

lemma lookup_plant_self: "\<not> blocked d p \<Longrightarrow> lookup (plant p n d) p = Some n"
proof (induction p arbitrary: d)
  case Nil
  then show ?case by simp
next
  case (Cons c cs)
  then show ?case
    by (cases d) (auto simp: update_conv' split: option.splits)
qed

lemma lookup_prefix_exists: "lookup d (p @ q) = Some n \<Longrightarrow> lookup d p \<noteq> None"
  by (simp add: lookup_append split: option.splits)

subsection \<open>Invariants of the disk\<close>

definition preserves :: "(node \<Rightarrow> bool) \<Rightarrow> 'a act \<Rightarrow> bool" where
  "preserves I m = (\<forall>w. I (disk w) \<longrightarrow> I (disk (snd (m w))))"

definition fails :: "(node \<Rightarrow> bool) \<Rightarrow> 'a act \<Rightarrow> bool" where
  "fails I m = (\<forall>w. I (disk w) \<longrightarrow> isl (fst (m w)))"

definition at :: "path \<Rightarrow> (node option \<Rightarrow> bool) \<Rightarrow> node \<Rightarrow> bool" where
  "at q J d = J (lookup d q)"

lemma preserves_ret: "preserves I (ret a)"
  by (simp add: preserves_def ret_def)

lemma preserves_raise: "preserves I (raise e)"
  by (simp add: preserves_def raise_def)

lemma preserves_print: "preserves I (print m)"
  by (simp add: preserves_def print_def)

lemma preserves_gets: "preserves I (gets g)"
  by (simp add: preserves_def gets_def)

lemma preserves_modify: "(\<And>d. I d \<Longrightarrow> I (h d)) \<Longrightarrow> preserves I (modify h)"
  by (simp add: preserves_def modify_def)

lemma preserves_bind:
  "preserves I m \<Longrightarrow> (\<And>a. preserves I (f a)) \<Longrightarrow> preserves I (bind m f)"
  unfolding preserves_def bind_def
  by (auto split: prod.splits sum.splits)

lemma preserves_seq: "preserves I m \<Longrightarrow> preserves I k \<Longrightarrow> preserves I (seq m k)"
  by (simp add: seq_def preserves_bind)

lemma preserves_bind_gets:
  "(\<And>a. \<exists>d. I d \<and> a = g d \<Longrightarrow> preserves I (f a)) \<Longrightarrow> preserves I (bind (gets g) f)"
  unfolding preserves_def by (auto simp: bind_def gets_def)

lemma preserves_bind_fails: "preserves I m \<Longrightarrow> fails I m \<Longrightarrow> preserves I (bind m f)"
  unfolding preserves_def fails_def bind_def
  by (auto split: prod.splits sum.splits)

lemma preserves_foreach: "(\<And>x. x \<in> set xs \<Longrightarrow> preserves I (f x)) \<Longrightarrow> preserves I (foreach xs f)"
  by (induction xs) (simp_all add: preserves_ret preserves_seq)

lemma preserves_catch: "preserves I m \<Longrightarrow> preserves I h \<Longrightarrow> preserves I (catch m e h)"
  unfolding preserves_def catch_def
  by (auto split: prod.splits sum.splits)

lemma preserves_if: "(c \<Longrightarrow> preserves I m) \<Longrightarrow> (\<not> c \<Longrightarrow> preserves I m') \<Longrightarrow> preserves I (if c then m else m')"
  by simp

lemmas preserves_intros = preserves_ret preserves_raise preserves_print preserves_gets
  preserves_bind preserves_seq preserves_foreach preserves_catch preserves_if

lemma preserves_path_exists: "preserves I (path_exists p)"
  by (simp add: path_exists_def preserves_gets)

lemma preserves_isfile: "preserves I (isfile p)"
  by (simp add: isfile_def preserves_gets)

lemma preserves_isdir: "preserves I (isdir p)"
  by (simp add: isdir_def preserves_gets)

lemma preserves_listdir: "preserves I (listdir p)"
  unfolding listdir_def
  by (auto intro!: preserves_intros split: option.splits node.splits)

lemma preserves_read_file: "preserves I (read_file p)"
  unfolding read_file_def
  by (auto intro!: preserves_intros split: option.splits node.splits)

lemma preserves_read_json: "preserves I (read_json p)"
  unfolding read_json_def
  by (auto intro!: preserves_intros preserves_read_file split: content.splits)

lemma preserves_write_file: "apart p q \<Longrightarrow> preserves (at q J) (write_file p c)"
  unfolding write_file_def
  by (auto intro!: preserves_intros preserves_modify simp: at_def lookup_plant_apart)

lemma preserves_makedirs: "apart p q \<Longrightarrow> preserves (at q J) (makedirs p)"
  unfolding makedirs_def
  by (auto intro!: preserves_intros preserves_modify simp: at_def lookup_plant_apart)

lemma preserves_rmtree: "apart p q \<Longrightarrow> preserves (at q J) (rmtree p)"
  unfolding rmtree_def
  by (auto intro!: preserves_intros preserves_modify simp: at_def lookup_prune_apart
      split: option.splits node.splits)

lemma preserves_copy: "apart dst q \<Longrightarrow> preserves (at q J) (copy src dst)"
  unfolding copy_def Let_def
  by (auto intro!: preserves_intros preserves_isdir preserves_read_file preserves_write_file
      simp: apart_append)

lemma preserves_copytree: "apart dst q \<Longrightarrow> preserves (at q J) (copytree src dst)"
  unfolding copytree_def
  by (auto intro!: preserves_intros preserves_modify simp: at_def lookup_plant_apart
      split: option.splits node.splits)

lemma makedirs_existing:
  assumes "\<And>x. J x \<Longrightarrow> x \<noteq> None" and "prefix p q"
  shows "preserves (at q J) (makedirs p)" and "fails (at q J) (makedirs p)"
proof -
  from \<open>prefix p q\<close> obtain r where q: "q = p @ r" by (auto simp: prefix_def)
  have ex: "lookup d p \<noteq> None" if "at q J d" for d
    using that assms(1) [of "lookup d q"] unfolding at_def q
    by (auto simp: lookup_append split: option.splits)
  show "preserves (at q J) (makedirs p)"
    unfolding preserves_def makedirs_def using ex by (auto simp: raise_def)
  show "fails (at q J) (makedirs p)"
    unfolding fails_def makedirs_def using ex by (auto simp: raise_def)
qed

lemmas preserves_prims = preserves_path_exists preserves_isfile preserves_isdir
  preserves_listdir preserves_read_file preserves_read_json preserves_write_file
  preserves_makedirs preserves_rmtree preserves_copy preserves_copytree


subsection \<open>Reading and writing at a path that exists\<close>

lemma lookup_not_blocked: "lookup d p = Some n \<Longrightarrow> \<not> blocked d p"
proof (induction p arbitrary: d)
  case Nil
  then show ?case by simp
next
  case (Cons c cs)
  then show ?case by (cases d) (auto split: option.splits)
qed

lemma lookup_parent_dir: "lookup d p = Some n \<Longrightarrow> p \<noteq> [] \<Longrightarrow> is_dir d (butlast p)"
proof (induction p arbitrary: d)
  case Nil
  then show ?case by simp
next
  case (Cons c cs)
  from Cons.prems obtain es m where d: "d = Dir es" and m: "map_of es c = Some m"
    and l: "lookup m cs = Some n"
    by (cases d) (auto split: option.splits)
  show ?case
  proof (cases "cs = []")
    case True
    with d show ?thesis by (simp add: is_dir_def)
  next
    case False
    with Cons.IH [OF l] have "is_dir m (butlast cs)" by simp
    with False d m show ?thesis by (simp add: is_dir_def)
  qed
qed

lemma write_file_existing:
  assumes "lookup (disk w) p = Some (File c0)" and "p \<noteq> []"
  shows "write_file p c w
           = (Inr (), w\<lparr>disk := plant p (File c) (disk w), writes := Suc (writes w)\<rparr>)"
proof -
  have "\<not> is_dir (disk w) p" using assms by (simp add: is_dir_def)
  moreover have "\<not> blocked (disk w) p" using assms(1) by (rule lookup_not_blocked)
  moreover have "is_dir (disk w) (butlast p)" using assms by (rule lookup_parent_dir)
  ultimately show ?thesis using \<open>p \<noteq> []\<close> by (simp add: write_file_def modify_def)
qed

lemma bind_eval: "m w = (Inr a, w') \<Longrightarrow> bind m f w = f a w'"
  by (simp add: bind_def)

text \<open>The index document, as \<open>load_repo_data\<close> reads it.\<close>

definition index :: "node \<Rightarrow> repo_data option" where
  "index d = (case lookup d repo_data_path of
                Some (File (Json (RepoData r))) \<Rightarrow> Some r
              | _ \<Rightarrow> None)"

lemma index_lookup: "index d = Some r \<longleftrightarrow> lookup d repo_data_path = Some (File (Json (RepoData r)))"
  by (auto simp: index_def split: option.splits node.splits content.splits json.splits)

lemma load_repo_data_ok: "index (disk w) = Some r \<Longrightarrow> load_repo_data w = (Inr r, w)"
  by (simp add: index_lookup load_repo_data_def path_exists_def read_json_def read_file_def
      ret_def)

lemma save_repo_data_ok:
  assumes "index (disk w) = Some r"
  shows "save_repo_data r' w
    = (Inr (), w\<lparr>disk := plant repo_data_path (File (Json (RepoData r'))) (disk w),
                  writes := Suc (writes w), out := out w @ [Repository_data_updated]\<rparr>)"
  using assms
  by (simp add: index_lookup save_repo_data_def seq_def bind_def write_file_existing print_def
      repo_data_path_def)

lemma index_plant:
  "index d = Some r \<Longrightarrow> index (plant repo_data_path (File (Json (RepoData r'))) d) = Some r'"
  by (simp add: index_lookup lookup_plant_self lookup_not_blocked)

lemma index_out [simp]: "index (disk (w\<lparr>out := x\<rparr>)) = index (disk w)"
  by simp

lemmas path_defs = ICVCS_DIR_def COMMITS_DIR_def LATEST_DIR_def VERSIONS_DIR_def
  repo_data_path_def config_path_def commit_history_path_def

lemmas prim_defs = path_exists_def isfile_def isdir_def listdir_def read_file_def
  read_json_def write_file_def makedirs_def rmtree_def copy_def copytree_def seq_def
  is_file_def is_dir_def load_repo_data_def save_repo_data_def load_config_def

lemma file_not_dir: "is_file d p \<Longrightarrow> \<not> is_dir d p"
  by (auto simp: is_file_def is_dir_def split: option.splits node.splits)

subsection \<open>What each operation leaves alone\<close>

lemma apart_append_Cons: "apart (b @ [c]) q \<Longrightarrow> apart (b @ c # r) q"
  using apart_append [of "b @ [c]" q r] by simp

lemma preserves_load_repo_data: "preserves I load_repo_data"
  unfolding load_repo_data_def
  by (auto intro!: preserves_intros preserves_prims split: json.splits)

lemma preserves_load_config: "preserves I load_config"
  unfolding load_config_def
  by (auto intro!: preserves_intros preserves_prims simp: preserves_ret split: json.splits)

lemma preserves_save_repo_data:
  "apart repo_data_path q \<Longrightarrow> preserves (at q J) (save_repo_data r)"
  unfolding save_repo_data_def
  by (auto intro!: preserves_intros preserves_prims)

lemma preserves_list_remove: "preserves I (list_remove x xs)"
  by (simp add: list_remove_def preserves_ret preserves_raise)

lemma preserves_add: "apart repo_data_path q \<Longrightarrow> preserves (at q J) (add p with_files)"
  unfolding add_def
  by (auto intro!: preserves_intros preserves_prims preserves_load_repo_data
      preserves_save_repo_data)

lemma preserves_remove_path: "apart repo_data_path q \<Longrightarrow> preserves (at q J) (remove_path p)"
  unfolding remove_path_def
  by (auto intro!: preserves_intros preserves_prims preserves_load_repo_data
      preserves_save_repo_data)

lemma preserves_version_from:
  assumes "apart repo_data_path q" and "apart (join VERSIONS_DIR name) q"
  shows "preserves (at q J) (version_from r c command name force now a d)"
  unfolding version_from_def Let_def join_basename_def using assms
  by (auto intro!: preserves_intros preserves_prims preserves_save_repo_data
      preserves_list_remove simp: apart_append apart_append_Cons split: prod.splits)

lemma preserves_version:
  assumes "apart repo_data_path q" and "apart (join VERSIONS_DIR name) q"
  shows "preserves (at q J) (version command name force now a d)"
  unfolding version_def using assms
  by (auto intro!: preserves_intros preserves_load_repo_data preserves_load_config
      preserves_version_from)

lemma preserves_commit_from:
  assumes "apart commit_history_path q" and "apart (COMMITS_DIR @ [strftime_id now]) q"
  shows "preserves (at q J) (commit_from r c now now' m a)"
  unfolding commit_from_def Let_def join_basename_def using assms
  by (auto intro!: preserves_intros preserves_prims simp: apart_append apart_append_Cons
      split: prod.splits json.splits)

lemma preserves_commit:
  assumes "apart commit_history_path q" and "apart (COMMITS_DIR @ [strftime_id now]) q"
  shows "preserves (at q J) (commit now now' m a)"
  unfolding commit_def using assms
  by (auto intro!: preserves_intros preserves_load_repo_data preserves_load_config
      preserves_commit_from)

lemma preserves_remove_commit:
  "apart (join COMMITS_DIR cid) q \<Longrightarrow> preserves (at q J) (remove_commit cid)"
  unfolding remove_commit_def Let_def
  by (auto intro!: preserves_intros preserves_prims)

lemma preserves_push_select: "preserves I (push_select cid)"
  unfolding push_select_def Let_def
  by (auto intro!: preserves_intros preserves_prims)

lemma preserves_push: "apart LATEST_DIR q \<Longrightarrow> preserves (at q J) (push cid)"
  unfolding push_def push_item_def Let_def
  by (auto intro!: preserves_intros preserves_prims preserves_push_select
      simp: apart_append apart_append_Cons split: option.splits prod.splits)

lemma preserves_clear_commits:
  assumes "\<And>c. c \<noteq> ''latest'' \<Longrightarrow> apart (COMMITS_DIR @ [c]) q"
  shows "preserves (at q J) clear_commits"
  unfolding clear_commits_def Let_def using assms
  by (auto intro!: preserves_intros preserves_prims)

lemma preserves_status_loop: "preserves I (status_loop fs m d)"
  by (induction fs arbitrary: m d)
     (auto intro!: preserves_intros preserves_prims)

lemma preserves_status: "preserves I status"
  unfolding status_def Let_def get_last_commit_info_def
  by (auto intro!: preserves_intros preserves_prims preserves_load_repo_data
      preserves_status_loop split: prod.splits json.splits)

lemma preserves_compare_versions: "preserves I (compare_versions cd v1 v2)"
  unfolding compare_versions_def compare_file_def Let_def load_version_files_def
    load_file_content_def read_text_def
  by (auto intro!: preserves_intros preserves_prims
      split: prod.splits json.splits option.splits content.splits)


lemma preserves_version_from_existing:
  assumes J: "\<And>x. J x \<Longrightarrow> x \<noteq> None"
    and c: "\<not> (command = ''delete'' \<or> command = ''create'' \<and> force)"
  shows "preserves (at (join VERSIONS_DIR name) J)
           (version_from r cf command name force now a d)"
proof -
  have ex: "lookup dk (join VERSIONS_DIR name) \<noteq> None" if "at (join VERSIONS_DIR name) J dk" for dk
    using that J unfolding at_def by blast
  show ?thesis
    unfolding version_from_def Let_def path_exists_def using c
    by (auto intro!: preserves_print preserves_bind_gets dest: ex)
qed

lemma preserves_commit_from_existing:
  assumes "\<And>x. J x \<Longrightarrow> x \<noteq> None" and "prefix (COMMITS_DIR @ [strftime_id now]) q"
  shows "preserves (at q J) (commit_from r c now now' m a)"
  unfolding commit_from_def Let_def seq_def
  by (rule preserves_bind_fails) (rule makedirs_existing [OF assms], simp_all)+

lemma preserves_init:
  assumes J: "\<And>x. J x \<Longrightarrow> x \<noteq> None" and p: "prefix ICVCS_DIR q"
  shows "preserves (at q J) (init n a d m)"
proof -
  from p obtain r where q: "q = ICVCS_DIR @ r" by (auto simp: prefix_def)
  have ex: "lookup dk ICVCS_DIR \<noteq> None" if "at q J dk" for dk
    using that J [of "lookup dk q"] unfolding at_def q
    by (auto simp: lookup_append split: option.splits)
  show ?thesis
    unfolding init_def path_exists_def
    by (auto intro!: preserves_print preserves_bind_gets dest: ex)
qed

subsection \<open>Sequences of operations\<close>

text \<open>
  The operations of the command line, and the two things a user does to the working
  tree between them: writing a file and deleting a file or directory.
\<close>

datatype op =
    Init string string string string
  | Add path bool
  | Remove path
  | Version string string bool datetime string string
  | Commit datetime datetime string string
  | Remove_commit string
  | Push string
  | Clear_commits
  | Status
  | Compare codec string string
  | Edit path content
  | Delete path

fun exec :: "op \<Rightarrow> unit act" where
  "exec (Init n a d m) = init n a d m"
| "exec (Add p with_files) = add p with_files"
| "exec (Remove p) = remove_path p"
| "exec (Version command name force now a d) = version command name force now a d"
| "exec (Commit now now' m a) = commit now now' m a"
| "exec (Remove_commit cid) = remove_commit cid"
| "exec (Push cid) = push cid"
| "exec Clear_commits = clear_commits"
| "exec Status = bind status (\<lambda>r. ret ())"
| "exec (Compare cd v1 v2) = compare_versions cd v1 v2"
| "exec (Edit p c) = modify (plant p (File c))"
| "exec (Delete p) = modify (prune p)"

fun run :: "op list \<Rightarrow> world \<Rightarrow> world" where
  "run [] w = w"
| "run (x # xs) w = run xs (snd (exec x w))"

text \<open>
  The names an operation joins to a directory and then creates or deletes are proper.
\<close>

fun proper_op :: "op \<Rightarrow> bool" where
  "proper_op (Version command name force now a d) = proper name"
| "proper_op (Remove_commit cid) = proper cid"
| "proper_op x = True"

text \<open>
  The operations that can destroy the snapshot stored at \<open>S\<close>. The sanctioned ones:
  deleting the version, creating it again with force, removing the commit, clearing the
  commits. And those that reach it because nothing checks a name: a version command or
  \<open>commit remove\<close> whose name, joined to its directory, is a path above \<open>S\<close> or inside
  \<open>S\<close>; and a user's edit at, above or inside \<open>S\<close>.
\<close>

fun destroys :: "path \<Rightarrow> op \<Rightarrow> bool" where
  "destroys S (Version command name force now a d) =
     (name \<noteq> [] \<and> \<not> apart (join VERSIONS_DIR name) S
      \<and> (command = ''delete''
           \<or> command = ''create'' \<and> (force \<or> join VERSIONS_DIR name \<noteq> S)))"
| "destroys S (Remove_commit cid) = (\<not> apart (join COMMITS_DIR cid) S)"
| "destroys S Clear_commits = prefix COMMITS_DIR S"
| "destroys S (Edit p c) = (\<not> apart p S)"
| "destroys S (Delete p) = (\<not> apart p S)"
| "destroys S x = False"

definition snapshot_path :: "path \<Rightarrow> bool" where
  "snapshot_path S =
     ((\<exists>v. S = VERSIONS_DIR @ [v]) \<or> (\<exists>c. c \<noteq> ''latest'' \<and> S = COMMITS_DIR @ [c]))"

lemma apart_siblings: "a \<noteq> b \<Longrightarrow> apart (base @ [a]) (base @ [b])"
  by (simp add: apart_base)

lemma preserves_version_from_idle:
  assumes "name = [] \<or> command \<noteq> ''create'' \<and> command \<noteq> ''delete''"
  shows "preserves I (version_from r cf command name force now a d)"
  unfolding version_from_def using assms by (auto intro: preserves_print)

lemma exec_keeps_snapshot:
  assumes S: "snapshot_path S" and nd: "\<not> destroys S x"
  shows "preserves (at S (\<lambda>n. n = Some t)) (exec x)"
proof (cases x)
  case (Init n a d m)
  with S show ?thesis
    by (auto intro!: preserves_init simp: snapshot_path_def path_defs)
next
  case (Add p with_files)
  with S show ?thesis
    by (auto intro!: preserves_add simp: snapshot_path_def path_defs)
next
  case (Remove p)
  with S show ?thesis
    by (auto intro!: preserves_remove_path simp: snapshot_path_def path_defs)
next
  case (Version command name force now a d)
  show ?thesis
  proof (cases "apart (join VERSIONS_DIR name) S")
    case True
    moreover from S have "apart repo_data_path S"
      by (auto simp: snapshot_path_def path_defs)
    ultimately show ?thesis using Version by (simp add: preserves_version)
  next
    case False
    with nd Version consider
        (idle) "name = [] \<or> command \<noteq> ''create'' \<and> command \<noteq> ''delete''"
      | (same) "join VERSIONS_DIR name = S"
          "\<not> (command = ''delete'' \<or> command = ''create'' \<and> force)"
      by auto
    then show ?thesis
    proof cases
      case idle
      with Version show ?thesis
        by (auto simp: version_def intro!: preserves_bind preserves_load_repo_data
            preserves_load_config preserves_version_from_idle)
    next
      case same
      have "preserves (at (join VERSIONS_DIR name) (\<lambda>n. n = Some t))
              (version_from r cf command name force now a d)" for r cf
        using same(2) by (intro preserves_version_from_existing) auto
      with same(1) Version show ?thesis
        by (auto simp: version_def intro!: preserves_bind preserves_load_repo_data
            preserves_load_config)
    qed
  qed
next
  case (Commit now now' m a)
  show ?thesis
  proof (cases "S = COMMITS_DIR @ [strftime_id now]")
    case True
    with Commit show ?thesis
      by (auto simp: commit_def intro!: preserves_bind preserves_load_repo_data
          preserves_load_config preserves_commit_from_existing)
  next
    case False
    with S have "apart (COMMITS_DIR @ [strftime_id now]) S" "apart commit_history_path S"
      by (auto simp: snapshot_path_def path_defs)
    with Commit show ?thesis by (simp add: preserves_commit)
  qed
next
  case (Remove_commit cid)
  with nd have "apart (join COMMITS_DIR cid) S" by simp
  with Remove_commit show ?thesis by (simp add: preserves_remove_commit)
next
  case (Push cid)
  with S show ?thesis
    by (auto intro!: preserves_push simp: snapshot_path_def path_defs)
next
  case Clear_commits
  with S nd show ?thesis
    by (auto intro!: preserves_clear_commits simp: snapshot_path_def path_defs)
next
  case Status
  then show ?thesis
    by (auto intro!: preserves_bind preserves_status preserves_ret)
next
  case (Compare cd v1 v2)
  then show ?thesis by (simp add: preserves_compare_versions)
next
  case (Edit p c)
  with nd show ?thesis
    by (auto intro!: preserves_modify simp: at_def lookup_plant_apart)
next
  case (Delete p)
  with nd show ?thesis
    by (auto intro!: preserves_modify simp: at_def lookup_prune_apart)
qed

lemmas eval_defs = path_defs prim_defs ret_def raise_def print_def Let_def

lemma ret_apply: "ret a w = (Inr a, w)"
  by (simp add: ret_def)

lemma raise_apply: "raise e w = (Inl e, w)"
  by (simp add: raise_def)

lemma print_apply: "print m w = (Inr (), w\<lparr>out := out w @ [m]\<rparr>)"
  by (simp add: print_def)

lemma modify_apply:
  "modify g w = (Inr (), w\<lparr>disk := g (disk w), writes := Suc (writes w)\<rparr>)"
  by (simp add: modify_def)

lemma bind_Pair_Inr [simp]: "bind (Pair (Inr a)) f = f a"
  by (rule ext) (simp add: bind_def)

lemma bind_Pair_Inl [simp]: "bind (Pair (Inl e)) f = Pair (Inl e)"
  by (rule ext) (simp add: bind_def)

lemma bind_seq_print [simp]: "bind (seq (print m) k) f = bind (print m) (\<lambda>u. bind k f)"
  by (simp add: seq_def)

lemma bind_if_world [simp]:
  "bind (\<lambda>a. (if c a then m else m') a) f w = bind (if c w then m else m') f w"
  by (simp add: bind_def)

text \<open>Everything a concrete run unfolds.\<close>

lemmas run_defs = path_defs prim_defs Let_def join_def
  init_def add_def remove_path_def version_def version_from_def commit_def commit_from_def
  remove_commit_def push_def push_item_def push_select_def clear_commits_def
  or_else_def join_basename_def list_remove_def strftime_id_def isoformat_def
  pad2_def pad4_def pad6_def digit_def default_config_def
  ret_apply raise_apply print_apply modify_apply

section \<open>C1: snapshot isolation\<close>

definition r7 :: repo_data where
  "r7 = \<lparr>repo_name = ''r'', files = [[''a.txt'']], directories = [], versions = []\<rparr>"

definition t_2024 :: datetime where
  "t_2024 = \<lparr>year = 2024, month = 5, day = 17, hour = 9, minute = 30, second = 7,
              microsecond = 12\<rparr>"

definition t_later :: datetime where
  "t_later = \<lparr>year = 2024, month = 5, day = 17, hour = 9, minute = 31, second = 0,
               microsecond = 0\<rparr>"

definition meta1 :: commit_meta where
  "meta1 = \<lparr>commit_id = ''20240517093007'', timestamp = ''2024-05-17T09:30:07.000012'',
             message = ''first'', author = ''Unknown''\<rparr>"

text \<open>
  A repository that tracks \<open>a.txt\<close>, holds the commit \<open>20240517093007\<close> of it and the
  version \<open>v1\<close>, and has the commit pushed.
\<close>

definition snap1 :: node where
  "snap1 = Dir [(''a.txt'', File (Raw ''hello'')),
                (''metadata.json'', File (Json (CommitMeta meta1)))]"

definition w1 :: world where
  "w1 = \<lparr>disk = Dir
          [(''a.txt'', File (Raw ''hello'')),
           (''.icvcs'', Dir
             [(''versions'', Dir [(''v1'', Dir [(''a.txt'', File (Raw ''hello''))])]),
              (''commits'', Dir [(''latest'', snap1), (''20240517093007'', snap1)]),
              (''repo_data.json'', File (Json (RepoData r7))),
              (''commit_history.json'', File (Json (History [meta1])))])],
          out = [], writes = 0\<rparr>"

text \<open>
  A run on it: the file is edited and committed again, then taken out of the index and
  deleted; a second version is made with force, the new commit is pushed, and
  \<open>commit remove\<close> is given the name of no commit.
\<close>

definition ops1 :: "op list" where
  "ops1 = [Edit [''a.txt''] (Raw ''world''), Add [''b.txt''] False,
           Commit t_later t_later ''again'' [], Remove [''a.txt''], Delete [''a.txt''],
           Version ''create'' ''v2'' True t_later [] [], Push [],
           Remove_commit ''20240517093008'']"

text \<open>
  C1, as the claim states it, fails. A version name goes into \<open>os.path.join\<close> as it was
  typed, so \<open>version create v1/x\<close>, which is not a forced creation and names no existing
  version, makes its directory inside the stored tree of the version \<open>v1\<close> and copies
  the tracked files there: the tree of \<open>v1\<close> is no longer what it was.
\<close>

theorem version_create_inside_snapshot:
  "lookup (disk w1) (VERSIONS_DIR @ [''v1'']) = Some (Dir [(''a.txt'', File (Raw ''hello''))])
   \<and> fst (version ''create'' ''v1/x'' False t_later [] [] w1) = Inr ()
   \<and> lookup (disk (run [Version ''create'' ''v1/x'' False t_later [] []] w1))
        (VERSIONS_DIR @ [''v1''])
       = Some (Dir [(''a.txt'', File (Raw ''hello'')),
                    (''x'', Dir [(''a.txt'', File (Raw ''hello'')),
                       (''metadata.json'', File (Json (VersionMeta
                          \<lparr>version_name = ''v1/x'', created_at = ''2024-05-17T09:31:00'',
                           v_author = ''Unknown'',
                           description = ''No description provided'',
                           v_files = [[''a.txt'']]\<rparr>)))])])"
  by (simp add: w1_def snap1_def meta1_def r7_def t_later_def run_defs)

text \<open>
  C1, amended: a snapshot is the tree stored at \<open>versions/<name>\<close> or at \<open>commits/<id>\<close>
  (the reserved \<open>latest\<close> is not a commit). Whatever sequence of operations and of user
  edits runs, with exceptions or without, the tree stays exactly as it is, as long as
  the names given to \<open>version\<close> and \<open>commit remove\<close> are proper and no step is one of
  \<open>destroys\<close>: a sanctioned destruction of this snapshot, a \<open>version create\<close>,
  \<open>version delete\<close> or \<open>commit remove\<close> whose name is a path above or inside the
  snapshot's directory, or an edit of the snapshot's own storage.
\<close>

theorem snapshot_isolation:
  assumes "snapshot_path S"
    and "lookup (disk w) S = Some t"
    and "\<forall>x \<in> set ops. proper_op x \<and> \<not> destroys S x"
  shows "lookup (disk (run ops w)) S = Some t"
  using assms(2,3)
proof (induction ops arbitrary: w)
  case Nil
  then show ?case by simp
next
  case (Cons x xs)
  from Cons.prems have "\<not> destroys S x" by simp
  with assms(1) have "preserves (at S (\<lambda>n. n = Some t)) (exec x)"
    by (rule exec_keeps_snapshot)
  with Cons.prems(1) have "lookup (disk (snd (exec x w))) S = Some t"
    by (simp add: preserves_def at_def)
  with Cons show ?case by simp
qed

theorem snapshot_isolation_witness:
  "snapshot_path (COMMITS_DIR @ [''20240517093007''])
   \<and> lookup (disk w1) (COMMITS_DIR @ [''20240517093007'']) = Some snap1
   \<and> lookup (disk (run ops1 w1)) (COMMITS_DIR @ [''20240517093007'']) = Some snap1"
  using snapshot_isolation [of "COMMITS_DIR @ [''20240517093007'']" w1 snap1 ops1]
  by (simp add: snapshot_path_def w1_def ops1_def path_defs join_def proper_def)

section \<open>C8: the journal only grows\<close>


















section \<open>C7: when \<open>remove\<close> takes a path out of the index\<close>

text \<open>
  \<open>remove\<close> looks at the disk first: a path is taken out of \<open>files\<close> only when it is a
  regular file on disk, and out of \<open>directories\<close> only when it is a directory on disk.
  \<open>tracked_here\<close> says that the path is tracked in the set that matches what it is on
  disk, \<open>untrack\<close> is the index without it.
\<close>

definition tracked_here :: "node \<Rightarrow> repo_data \<Rightarrow> path \<Rightarrow> bool" where
  "tracked_here d r p =
     (is_file d p \<and> p \<in> set (files r) \<or> is_dir d p \<and> map_of (directories r) p \<noteq> None)"

definition untrack :: "node \<Rightarrow> repo_data \<Rightarrow> path \<Rightarrow> repo_data" where
  "untrack d r p =
     (if is_file d p then r\<lparr>files := remove1 p (files r)\<rparr>
      else r\<lparr>directories := AList.delete p (directories r)\<rparr>)"

text \<open>A repository that tracks \<open>a.txt\<close>, after the file was deleted from the disk.\<close>

definition w7 :: world where
  "w7 = \<lparr>disk = Dir [(''.icvcs'', Dir [(''repo_data.json'', File (Json (RepoData r7)))])],
          out = [], writes = 0\<rparr>"

text \<open>The same repository with the file still on disk.\<close>

definition w7' :: world where
  "w7' = \<lparr>disk = Dir [(''a.txt'', File (Raw ''hello'')),
                      (''.icvcs'', Dir [(''repo_data.json'', File (Json (RepoData r7)))])],
          out = [], writes = 0\<rparr>"

text \<open>
  C7, as the claim states it, fails: \<open>a.txt\<close> is in \<open>tracked_files\<close> but no longer on
  disk; \<open>remove\<close> prints that the path does not exist in the repository and writes the
  index back with \<open>a.txt\<close> still in it.
\<close>

theorem remove_missing_tracked_file:
  "remove_path [''a.txt''] w7
     = (Inr (), w7\<lparr>out := [Path_not_in_repository [''a.txt''], Repository_data_updated],
                    writes := 1\<rparr>)"
  by (simp add: remove_path_def w7_def r7_def path_defs prim_defs ret_def print_def)

text \<open>
  C7, amended: with a readable index, \<open>remove(path)\<close> always returns; it takes the path
  out of the index exactly when the path is tracked in the set that matches what it is
  on disk (a regular file in \<open>files\<close>, a directory keyed in \<open>directories\<close>) and leaves the
  index as it is otherwise; it reports "not tracked" exactly when the path is a file on
  disk that is not in \<open>files\<close> or a directory on disk that is not a key of
  \<open>directories\<close>, and "does not exist" exactly when the path is neither on disk.
\<close>

theorem remove_path_iff:
  assumes "index (disk w) = Some r"
  shows "fst (remove_path p w) = Inr ()
     \<and> index (disk (snd (remove_path p w)))
         = Some (if tracked_here (disk w) r p then untrack (disk w) r p else r)
     \<and> (\<exists>m. out (snd (remove_path p w)) = out w @ [m, Repository_data_updated]
           \<and> ((m = File_not_tracked p \<or> m = Directory_not_tracked p)
                 = (is_file (disk w) p \<and> p \<notin> set (files r)
                    \<or> is_dir (disk w) p \<and> map_of (directories r) p = None))
           \<and> ((m = Path_not_in_repository p)
                 = (\<not> is_file (disk w) p \<and> \<not> is_dir (disk w) p)))"
  using assms
  by (auto simp add: remove_path_def load_repo_data_ok isfile_def isdir_def save_repo_data_ok
      seq_def index_plant tracked_here_def untrack_def bind_eval file_not_dir)

theorem remove_path_iff_witness:
  "index (disk w7') = Some r7
   \<and> fst (remove_path [''a.txt''] w7') = Inr ()
   \<and> index (disk (snd (remove_path [''a.txt''] w7'))) = Some (r7\<lparr>files := []\<rparr>)"
  using remove_path_iff [of w7' r7 "[''a.txt'']"]
  by (simp add: w7'_def r7_def index_def tracked_here_def untrack_def is_file_def path_defs)

section \<open>C5: failed validation checks\<close>

subsection \<open>Actions that only read\<close>

definition quiet :: "'a act \<Rightarrow> bool" where
  "quiet m = (\<forall>w. disk (snd (m w)) = disk w \<and> writes (snd (m w)) = writes w)"

lemma quiet_ret: "quiet (ret a)"
  by (simp add: quiet_def ret_def)

lemma quiet_raise: "quiet (raise e)"
  by (simp add: quiet_def raise_def)

lemma quiet_print: "quiet (print m)"
  by (simp add: quiet_def print_def)

lemma quiet_gets: "quiet (gets g)"
  by (simp add: quiet_def gets_def)

lemma quiet_bind: "quiet m \<Longrightarrow> (\<And>a. quiet (f a)) \<Longrightarrow> quiet (bind m f)"
  unfolding quiet_def bind_def
  by (auto split: prod.splits sum.splits) (metis snd_conv)+

lemma quiet_seq: "quiet m \<Longrightarrow> quiet k \<Longrightarrow> quiet (seq m k)"
  by (simp add: seq_def quiet_bind)

lemma quiet_if: "(c \<Longrightarrow> quiet m) \<Longrightarrow> (\<not> c \<Longrightarrow> quiet m') \<Longrightarrow> quiet (if c then m else m')"
  by simp

lemmas quiet_intros = quiet_ret quiet_raise quiet_print quiet_gets quiet_bind quiet_seq quiet_if

lemma quiet_read_json: "quiet (read_json p)"
  unfolding read_json_def read_file_def
  by (auto intro!: quiet_intros split: option.splits node.splits content.splits)

lemma quiet_load_repo_data: "quiet load_repo_data"
  unfolding load_repo_data_def path_exists_def
  by (auto intro!: quiet_intros quiet_read_json split: json.splits)

lemma quiet_load_config: "quiet load_config"
  unfolding load_config_def path_exists_def
  by (auto intro!: quiet_intros quiet_read_json simp: quiet_ret split: json.splits)

lemma quiet_push_select: "quiet (push_select cid)"
  unfolding push_select_def path_exists_def listdir_def Let_def
  by (auto intro!: quiet_intros split: option.splits node.splits)

lemma load_repo_data_Inr: "load_repo_data w = (Inr r, w') \<Longrightarrow> w' = w \<and> index (disk w) = Some r"
  unfolding load_repo_data_def path_exists_def read_json_def read_file_def index_lookup
  by (auto simp: raise_def ret_def seq_def
      split: if_splits option.splits node.splits content.splits json.splits)

lemma save_same_index:
  assumes "index (disk w) = Some r"
  shows "disk (snd (save_repo_data r w)) = disk w"
  using assms by (simp add: save_repo_data_ok plant_same index_lookup)

lemma bind_Inl: "m w = (Inl e, w') \<Longrightarrow> bind m f w = (Inl e, w')"
  by (simp add: bind_def)

lemma add_missing_path:
  assumes "\<not> is_file (disk w) p" and "\<not> is_dir (disk w) p"
  shows "disk (snd (add p with_files w)) = disk w"
proof (cases "load_repo_data w")
  case (Pair x w')
  show ?thesis
  proof (cases x)
    case (Inl e)
    with Pair quiet_load_repo_data show ?thesis
      by (auto simp: add_def bind_Inl quiet_def dest: spec [of _ w])
  next
    case (Inr r)
    with Pair have "w' = w" and "index (disk w) = Some r"
      by (auto dest: load_repo_data_Inr)
    with Pair Inr assms show ?thesis
      by (simp add: add_def bind_eval isfile_def isdir_def seq_def save_same_index)
  qed
qed

lemma remove_untracked_path:
  assumes "\<forall>r. index (disk w) = Some r \<longrightarrow> \<not> tracked_here (disk w) r p"
  shows "disk (snd (remove_path p w)) = disk w"
proof (cases "load_repo_data w")
  case (Pair x w')
  show ?thesis
  proof (cases x)
    case (Inl e)
    with Pair quiet_load_repo_data show ?thesis
      by (auto simp: remove_path_def bind_Inl quiet_def dest: spec [of _ w])
  next
    case (Inr r)
    with Pair have "w' = w" and "index (disk w) = Some r"
      by (auto dest: load_repo_data_Inr)
    with Pair Inr assms show ?thesis
      by (auto simp: remove_path_def bind_eval isfile_def isdir_def seq_def save_same_index
          tracked_here_def)
  qed
qed

lemma version_from_existing:
  assumes "lookup (disk w) (join VERSIONS_DIR name) \<noteq> None"
  shows "version_from r c ''create'' name False now a d w
           = (Inr (), w\<lparr>out := out w @ [if name = [] then Version_name_required
                                        else Version_already_exists name]\<rparr>)"
  using assms by (simp add: version_from_def Let_def path_exists_def print_def)

lemma quiet_then:
  assumes "quiet m" and "disk w = d0" and "writes w = n0"
    and "\<And>a w'. disk w' = d0 \<Longrightarrow> writes w' = n0 \<Longrightarrow>
           disk (snd (f a w')) = d0 \<and> writes (snd (f a w')) = n0"
  shows "disk (snd (bind m f w)) = d0 \<and> writes (snd (bind m f w)) = n0"
proof (cases "m w")
  case (Pair x w')
  with assms(1-3) have "disk w' = d0" and "writes w' = n0"
    by (auto simp: quiet_def dest: spec [of _ w])
  with Pair assms(4) show ?thesis
    by (cases x) (simp_all add: bind_def)
qed

lemma version_existing:
  assumes "lookup (disk w) (join VERSIONS_DIR name) \<noteq> None"
  shows "disk (snd (version ''create'' name False now a d w)) = disk w
       \<and> writes (snd (version ''create'' name False now a d w)) = writes w"
  unfolding version_def
proof (rule quiet_then [OF quiet_load_repo_data refl refl])
  fix r and w1 :: world
  assume w1: "disk w1 = disk w" "writes w1 = writes w"
  show "disk (snd (bind load_config
          (\<lambda>config. version_from r config ''create'' name False now a d) w1)) = disk w
      \<and> writes (snd (bind load_config
          (\<lambda>config. version_from r config ''create'' name False now a d) w1)) = writes w"
  proof (rule quiet_then [OF quiet_load_config w1])
    fix c and w2 :: world
    assume "disk w2 = disk w" "writes w2 = writes w"
    with assms show "disk (snd (version_from r c ''create'' name False now a d w2)) = disk w
      \<and> writes (snd (version_from r c ''create'' name False now a d w2)) = writes w"
      by (simp add: version_from_existing)
  qed
qed

lemma push_nothing:
  assumes "fst (push_select cid w) = Inr None"
  shows "disk (snd (push cid w)) = disk w \<and> writes (snd (push cid w)) = writes w"
proof -
  obtain w' where s: "push_select cid w = (Inr None, w')"
    using assms by (cases "push_select cid w") simp
  with quiet_push_select [of cid] have "disk w' = disk w \<and> writes w' = writes w"
    by (auto simp: quiet_def dest: spec [of _ w])
  with s show ?thesis by (simp add: push_def bind_eval ret_def)
qed

text \<open>
  C5, as the claim states it, fails for \<open>add\<close> and \<open>remove\<close>: they do not abort on a
  failed check but go on to \<open>save_repo_data\<close>, which writes the index document. Adding a
  path that does not exist performs one write (of the index as it was loaded).
\<close>

theorem add_missing_path_writes:
  "add [''nope''] False w7
     = (Inr (), w7\<lparr>out := [Path_does_not_exist [''nope''], Repository_data_updated],
                    writes := 1\<rparr>)"
  by (simp add: add_def w7_def r7_def path_defs prim_defs ret_def print_def)

text \<open>
  C5, amended: a failed validation check leaves the whole tree (index document,
  journal, snapshot directories, working tree) as it was. \<open>version create\<close> on an
  existing name without force, and \<open>push\<close> with nothing to push or with an unknown
  commit, return before any write. \<open>add\<close> of a path that is not on disk and \<open>remove\<close> of
  a path that is not tracked as what it is on disk leave the tree unchanged too, but
  they still write the index document back, with the value they loaded.
\<close>

theorem validation_failure_leaves_tree:
  "(\<not> is_file (disk w) p \<and> \<not> is_dir (disk w) p \<longrightarrow>
      disk (snd (add p with_files w)) = disk w)
   \<and> ((\<forall>r. index (disk w) = Some r \<longrightarrow> \<not> tracked_here (disk w) r p) \<longrightarrow>
      disk (snd (remove_path p w)) = disk w)
   \<and> (lookup (disk w) (join VERSIONS_DIR name) \<noteq> None \<longrightarrow>
      disk (snd (version ''create'' name False now a d w)) = disk w
      \<and> writes (snd (version ''create'' name False now a d w)) = writes w)
   \<and> (fst (push_select cid w) = Inr None \<longrightarrow>
      disk (snd (push cid w)) = disk w \<and> writes (snd (push cid w)) = writes w)"
  using add_missing_path [of w p with_files] remove_untracked_path [of w p]
    version_existing [of w name now a d] push_nothing [of cid w]
  by blast

theorem validation_failure_leaves_tree_witness:
  "\<not> is_file (disk w1) [''nope''] \<and> \<not> is_dir (disk w1) [''nope'']
   \<and> index (disk w1) = Some r7 \<and> \<not> tracked_here (disk w1) r7 [''nope'']
   \<and> lookup (disk w1) (join VERSIONS_DIR ''v1'') \<noteq> None
   \<and> fst (push_select ''19990101000000'' w1) = Inr None
   \<and> disk (snd (add [''nope''] False w1)) = disk w1
   \<and> disk (snd (remove_path [''nope''] w1)) = disk w1
   \<and> disk (snd (version ''create'' ''v1'' False t_2024 [] [] w1)) = disk w1
   \<and> writes (snd (version ''create'' ''v1'' False t_2024 [] [] w1)) = writes w1
   \<and> disk (snd (push ''19990101000000'' w1)) = disk w1
   \<and> writes (snd (push ''19990101000000'' w1)) = writes w1"
  using validation_failure_leaves_tree
    [of w1 "[''nope'']" False "''v1''" t_2024 "[]" "[]" "''19990101000000''"]
  by (simp add: w1_def r7_def index_def tracked_here_def is_file_def is_dir_def path_defs
      push_select_def listdir_def path_exists_def seq_def print_def ret_def join_def Let_def)



section \<open>C2: the sets of \<open>status\<close>\<close>

subsection \<open>What \<open>status\<close> computes\<close>

lemma bind_Inr:
  "bind m f w = (Inr b, w') \<longleftrightarrow> (\<exists>a w1. m w = (Inr a, w1) \<and> f a w1 = (Inr b, w'))"
  by (auto simp: bind_def split: prod.splits sum.splits)

lemma read_file_Inr:
  "read_file p w = (Inr c, w') \<longleftrightarrow> w' = w \<and> lookup (disk w) p = Some (File c)"
  unfolding read_file_def
  by (auto simp: raise_def ret_def split: option.splits node.splits)

text \<open>The tracked files the loop of \<open>status\<close> puts into \<open>modified_files\<close>.\<close>

definition differs :: "node \<Rightarrow> path \<Rightarrow> bool" where
  "differs d f = (lookup d f \<noteq> None
     \<and> (lookup d (LATEST_DIR @ f) = None \<or> lookup d f \<noteq> lookup d (LATEST_DIR @ f)))"

lemma status_loop_Inr:
  "status_loop fs m dl w = (Inr (m', dl'), w') \<Longrightarrow>
     w' = w
     \<and> set dl' = set dl \<union> {f \<in> set fs. lookup (disk w) f = None}
     \<and> set m' = set m \<union> {f \<in> set fs. differs (disk w) f}
     \<and> (\<forall>f \<in> set fs. lookup (disk w) f \<noteq> None \<and> \<not> differs (disk w) f \<longrightarrow> is_file (disk w) f)"
proof (induction fs arbitrary: m dl)
  case Nil
  then show ?case by (simp add: ret_def)
next
  case (Cons f fs)
  show ?case
  proof (cases "lookup (disk w) f = None")
    case True
    with Cons.prems have "status_loop fs m (dl @ [f]) w = (Inr (m', dl'), w')"
      by (simp add: path_exists_def)
    from Cons.IH [OF this] True show ?thesis by (auto simp: differs_def)
  next
    case ex: False
    show ?thesis
    proof (cases "lookup (disk w) (LATEST_DIR @ f) = None")
      case True
      with ex Cons.prems have "status_loop fs (m @ [f]) dl w = (Inr (m', dl'), w')"
        by (simp add: path_exists_def)
      from Cons.IH [OF this] True ex show ?thesis by (auto simp: differs_def)
    next
      case False
      with ex Cons.prems obtain c c' where
        c: "lookup (disk w) f = Some (File c)" and
        c': "lookup (disk w) (LATEST_DIR @ f) = Some (File c')" and
        r: "(if c \<noteq> c' then status_loop fs (m @ [f]) dl else status_loop fs m dl) w
              = (Inr (m', dl'), w')"
        by (auto simp: path_exists_def bind_Inr read_file_Inr)
      show ?thesis
      proof (cases "c = c'")
        case True
        with r have "status_loop fs m dl w = (Inr (m', dl'), w')" by simp
        from Cons.IH [OF this] True c c' show ?thesis
          by (auto simp: differs_def is_file_def)
      next
        case False
        with r have "status_loop fs (m @ [f]) dl w = (Inr (m', dl'), w')" by simp
        from Cons.IH [OF this] False c c' show ?thesis
          by (auto simp: differs_def is_file_def)
      qed
    qed
  qed
qed

lemma walk_lookup:
  "lookup d r = Some (Dir es) \<Longrightarrow>
     (q @ r, map fst (filter (\<lambda>e. case snd e of File c \<Rightarrow> True | Dir x \<Rightarrow> False) es))
       \<in> set (walk q d)"
proof (induction r arbitrary: d q)
  case Nil
  then show ?case by simp
next
  case (Cons c cs)
  from Cons.prems obtain es0 n where d: "d = Dir es0" and n: "map_of es0 c = Some n"
    and l: "lookup n cs = Some (Dir es)"
    by (cases d) (auto split: option.splits)
  from n have "(c, n) \<in> set es0" by (rule map_of_SomeD)
  moreover from Cons.IH [OF l, of "q @ [c]"]
  have "(q @ c # cs, map fst (filter (\<lambda>e. case snd e of File c \<Rightarrow> True | Dir x \<Rightarrow> False) es))
          \<in> set (walk (q @ [c]) n)" by simp
  ultimately show ?case using d by force
qed

lemma lookup_snoc:
  assumes "lookup d (p @ [c]) = Some n"
  shows "\<exists>es. lookup d p = Some (Dir es) \<and> map_of es c = Some n"
proof (cases "lookup d p")
  case None
  with assms show ?thesis by (simp add: lookup_append)
next
  case (Some x)
  with assms show ?thesis
    by (cases x) (auto simp: lookup_append split: option.splits)
qed

lemma file_is_walked:
  assumes "is_file d f" and "f \<noteq> []"
  shows "\<exists>names. (butlast f, names) \<in> set (walk [] d) \<and> last f \<in> set names"
proof -
  from assms obtain c where "lookup d (butlast f @ [last f]) = Some (File c)"
    by (auto simp: is_file_def split: option.splits node.splits)
  then obtain es where es: "lookup d (butlast f) = Some (Dir es)"
    and m: "map_of es (last f) = Some (File c)"
    by (auto dest: lookup_snoc)
  from m have "(last f, File c) \<in> set es" by (rule map_of_SomeD)
  then have "last f \<in> set (map fst (filter (\<lambda>e. case snd e of File c \<Rightarrow> True | Dir x \<Rightarrow> False) es))"
    by force
  moreover from walk_lookup [OF es, of "[]"]
  have "(butlast f, map fst (filter (\<lambda>e. case snd e of File c \<Rightarrow> True | Dir x \<Rightarrow> False) es))
          \<in> set (walk [] d)" by simp
  ultimately show ?thesis by blast
qed

lemma file_in_working_directory_files:
  assumes "is_file d f" and "f \<noteq> []" and "\<not> contains ''.icvcs'' (root_str (butlast f))"
  shows "f \<in> set (working_directory_files (walk [] d))"
proof -
  from file_is_walked [OF assms(1,2)] obtain names where
    w: "(butlast f, names) \<in> set (walk [] d)" and n: "last f \<in> set names" by blast
  from assms(2) n have "f \<in> (\<lambda>name. butlast f @ [name]) ` set names"
    by (auto simp: image_iff intro!: bexI [of _ "last f"])
  with w assms(3) have "\<exists>x \<in> set (walk [] d). (case x of (root, names) \<Rightarrow>
      \<not> contains ''.icvcs'' (root_str root)) \<and> f \<in> (case x of (root, names) \<Rightarrow>
      (\<lambda>name. root @ [name]) ` set names)"
    by (intro bexI [of _ "(butlast f, names)"]) simp_all
  then show ?thesis
    unfolding working_directory_files_def walked_files_def
    by (auto split: prod.splits) blast
qed

lemma status_Inr:
  assumes "status w = (Inr rep, w')"
  shows "\<exists>rd. index (disk w) = Some rd
    \<and> status_loop (remdups (files rd)) [] [] w = (Inr (modified rep, deleted rep), w)
    \<and> staged rep = filter (\<lambda>f. f \<in> set (working_directory_files (walk [] (disk w)))
                              \<and> f \<notin> set (modified rep) \<and> f \<notin> set (deleted rep))
                     (remdups (files rd))"
proof -
  from assms obtain rd w1 where l: "load_repo_data w = (Inr rd, w1)"
    by (auto simp: status_def bind_Inr)
  then have w1: "w1 = w" and i: "index (disk w) = Some rd"
    by (auto dest: load_repo_data_Inr)
  from assms l w1 obtain m dl w2 where
    s: "status_loop (remdups (files rd)) [] [] w = (Inr (m, dl), w2)"
    and r: "\<exists>info w3. get_last_commit_info w2 = (Inr info, w3) \<and> rep =
       \<lparr>repository = repo_name rd, tracked_count = length (remdups (files rd)),
        total_versions = length (versions rd), last_commit = info,
        untracked_files = filter (\<lambda>file. file \<notin> set (remdups (files rd))
             \<and> \<not> prefix ''.icvcs'' (path_str file)) (working_directory_files (walk [] (disk w))),
        modified = m, deleted = dl,
        staged = filter (\<lambda>f. f \<in> set (working_directory_files (walk [] (disk w)))
                              \<and> f \<notin> set m \<and> f \<notin> set dl) (remdups (files rd))\<rparr>"
    by (auto simp: status_def bind_eval Let_def bind_Inr ret_def)
  from s have "w2 = w" by (auto dest: status_loop_Inr)
  with s r i show ?thesis by auto
qed


text \<open>
  The repository after \<open>init\<close>, \<open>add b.icvcs/a\<close>, \<open>add b.icvcs\<close>, \<open>commit\<close> and \<open>push\<close> in
  a working tree that holds the one file \<open>b.icvcs/a\<close>.
\<close>

definition meta2 :: commit_meta where
  "meta2 = \<lparr>commit_id = ''20240517093007'', timestamp = ''2024-05-17T09:30:07.000012'',
             message = ''m'', author = ''Unknown''\<rparr>"

definition snap2 :: node where
  "snap2 = Dir [(''a'', File (Raw ''x'')),
                (''b.icvcs'', Dir [(''a'', File (Raw ''x''))]),
                (''metadata.json'', File (Json (CommitMeta meta2)))]"

definition r2 :: repo_data where
  "r2 = \<lparr>repo_name = ''r'', files = [[''b.icvcs'', ''a'']],
          directories = [([''b.icvcs''], [])], versions = []\<rparr>"

definition w2 :: world where
  "w2 = \<lparr>disk = Dir
          [(''b.icvcs'', Dir [(''a'', File (Raw ''x''))]),
           (''.icvcs'', Dir
             [(''versions'', Dir []),
              (''commits'', Dir [(''20240517093007'', snap2), (''latest'', snap2)]),
              (''repo_data.json'', File (Json (RepoData r2))),
              (''icvcs_config.json'', File (Json (Config
                 \<lparr>default_author = ''Unknown'',
                  default_version_description = ''No description provided'',
                  default_commit_message = []\<rparr>))),
              (''commit_history.json'', File (Json (History [meta2])))])],
          out = [], writes = 0\<rparr>"

definition w2_start :: world where
  "w2_start = \<lparr>disk = Dir [(''b.icvcs'', Dir [(''a'', File (Raw ''x''))])],
                out = [], writes = 0\<rparr>"

lemma w2_reached:
  "disk (run [Init ''r'' [] [] [], Add [''b.icvcs'', ''a''] False, Add [''b.icvcs''] False,
              Commit t_2024 t_2024 ''m'' [], Push []] w2_start) = disk w2"
  apply (simp add: w2_start_def w2_def snap2_def meta2_def r2_def t_2024_def path_defs prim_defs Let_def
      init_def add_def commit_def commit_from_def push_def push_item_def push_select_def
      or_else_def join_basename_def strftime_id_def isoformat_def pad2_def pad4_def pad6_def
      digit_def default_config_def ret_apply raise_apply print_apply modify_apply)
  done

text \<open>
  C2: \<open>status\<close> means to leave its own storage out of the walk, and tests for it with
  \<open>ICVCS_DIR in root\<close>, a test on substrings that also holds of the directory
  \<open>./b.icvcs\<close>. The tracked file \<open>b.icvcs/a\<close> is on disk and equal to its copy in the
  latest pointer, so the loop makes it neither Deleted nor Modified; and the walk has
  skipped it, so it is not among the working directory files and not Staged. \<open>status\<close>
  on this repository puts the one tracked file into none of the three sets.
\<close>

theorem status_omits_tracked_file:
  "index (disk w2) = Some r2 \<and> files r2 = [[''b.icvcs'', ''a'']]
   \<and> fst (status w2) = Inr \<lparr>repository = ''r'', tracked_count = 1, total_versions = 0,
        last_commit = Some meta2, untracked_files = [], modified = [], deleted = [],
        staged = []\<rparr>"
  by (simp add: w2_def snap2_def r2_def index_def status_def get_last_commit_info_def
      working_directory_files_def walked_files_def root_str_def eval_defs)

section \<open>C3: push replaces the latest pointer wholesale\<close>

subsection \<open>Copying into a directory\<close>

lemma lookup_plant_child:
  "lookup d p = Some (Dir xs) \<Longrightarrow>
     lookup (plant (p @ [c]) n d) p = Some (Dir (AList.update c n xs))"
proof (induction p arbitrary: d)
  case Nil
  then show ?case by simp
next
  case (Cons a ps)
  then show ?case
    by (cases d) (auto simp: update_conv' split: option.splits)
qed

lemma update_fresh: "c \<notin> fst ` set xs \<Longrightarrow> AList.update c n xs = xs @ [(c, n)]"
  by (induction xs) auto

lemma lookup_prune_self: "p \<noteq> [] \<Longrightarrow> lookup (prune p d) p = None"
proof (induction p arbitrary: d)
  case Nil
  then show ?case by simp
next
  case (Cons a ps)
  then show ?case
    by (cases d) (auto simp: update_conv' delete_conv' split: option.splits)
qed

lemma dir_not_blocked: "lookup d p = Some (Dir xs) \<Longrightarrow> \<not> blocked d (p @ [c])"
proof (induction p arbitrary: d)
  case Nil
  then show ?case by (simp split: option.splits)
next
  case (Cons a ps)
  then show ?case by (cases d) (auto split: option.splits)
qed

lemma not_file_plant_below:
  "\<not> is_file d p \<Longrightarrow> \<not> is_file (plant (p @ c # r) n d) p"
proof (induction p arbitrary: d)
  case Nil
  then show ?case by (cases d) (simp_all add: is_file_def)
next
  case (Cons a ps)
  show ?case
  proof (cases d)
    case (File x)
    then show ?thesis by (simp add: is_file_def)
  next
    case (Dir ys)
    show ?thesis
    proof (cases "map_of ys a")
      case None
      have "\<not> is_file (Dir []) ps" by (cases ps) (simp_all add: is_file_def)
      from Cons.IH [OF this] None Dir show ?thesis
        by (simp add: is_file_def update_conv')
    next
      case (Some m)
      with Cons.prems Dir have "\<not> is_file m ps" by (simp add: is_file_def)
      from Cons.IH [OF this] Some Dir show ?thesis
        by (simp add: is_file_def update_conv')
    qed
  qed
qed

lemma apart_not_prefix_snoc: "apart a b \<Longrightarrow> \<not> prefix (a @ [c]) (b @ [c])"
  by (auto simp: apart_def dest: append_prefixD)

lemma lookup_below_dir:
  assumes "lookup d (p @ q) = Some n" and "q \<noteq> []"
  shows "\<exists>zs. lookup d p = Some (Dir zs) \<and> zs \<noteq> []"
proof (cases "lookup d p")
  case None
  with assms show ?thesis by (simp add: lookup_append)
next
  case (Some m)
  from assms(2) obtain x xs where q: "q = x # xs" by (cases q) auto
  from assms(1) Some q show ?thesis
    by (cases m) (auto simp: lookup_append split: option.splits)
qed

lemma push_item_copies:
  assumes c: "lookup (disk w) cdir = Some (Dir es)"
    and n: "map_of es c = Some n"
    and l: "lookup (disk w) LATEST_DIR = Some (Dir done)"
    and f: "map_of done c = None"
    and ap: "apart cdir LATEST_DIR"
  shows "push_item cdir c w
           = (Inr (), w\<lparr>disk := plant (LATEST_DIR @ [c]) n (disk w),
                        writes := Suc (writes w)\<rparr>)"
proof -
  have src: "lookup (disk w) (cdir @ [c]) = Some n"
    using c n by (simp add: lookup_append)
  have dst: "lookup (disk w) (LATEST_DIR @ [c]) = None"
    using l f by (simp add: lookup_append)
  have nb: "\<not> blocked (disk w) (LATEST_DIR @ [c])" using l by (rule dir_not_blocked)
  have nbs: "\<not> blocked (disk w) (cdir @ [c])"
    using src by (rule lookup_not_blocked)
  have ne: "LATEST_DIR @ [c] \<noteq> cdir @ [c]" using ap by (auto simp: apart_def)
  have np: "\<not> prefix (cdir @ [c]) (LATEST_DIR @ [c])"
    using ap by (rule apart_not_prefix_snoc)
  have par: "is_dir (disk w) LATEST_DIR" using l by (simp add: is_dir_def)
  show ?thesis
  proof (cases n)
    case (File x)
    with src dst nb ne par show ?thesis
      by (simp add: push_item_def Let_def isdir_def is_dir_def copy_def read_file_def
          write_file_def ret_def modify_def)
  next
    case (Dir xs)
    with src dst nb np nbs show ?thesis
      by (simp add: push_item_def Let_def isdir_def is_dir_def copytree_def seq_def ret_def)
  qed
qed

lemma push_loop:
  assumes "lookup (disk w) cdir = Some (Dir es)"
    and "es = done @ todo" and "distinct (map fst es)"
    and "lookup (disk w) LATEST_DIR = Some (Dir done)"
    and "apart cdir LATEST_DIR"
  shows "fst (foreach (map fst todo) (push_item cdir) w) = Inr ()
     \<and> lookup (disk (snd (foreach (map fst todo) (push_item cdir) w)))
          LATEST_DIR = Some (Dir es)
     \<and> lookup (disk (snd (foreach (map fst todo) (push_item cdir) w)))
          cdir = Some (Dir es)"
  using assms
proof (induction todo arbitrary: w "done")
  case Nil
  then show ?case by (simp add: ret_def)
next
  case (Cons e todo)
  obtain c n where e: "e = (c, n)" by (cases e)
  from Cons.prems(2,3) e have fresh: "c \<notin> fst ` set done" by auto
  then have f: "map_of done c = None" by (simp add: map_of_eq_None_iff)
  from Cons.prems(2) e fresh have n: "map_of es c = Some n"
    by (simp add: map_add_Some_iff f)
  let ?w = "w\<lparr>disk := plant (LATEST_DIR @ [c]) n (disk w), writes := Suc (writes w)\<rparr>"
  have step: "push_item cdir c w = (Inr (), ?w)"
    using Cons.prems(1) n Cons.prems(4) f Cons.prems(5) by (rule push_item_copies)
  have ap: "apart (LATEST_DIR @ [c]) cdir"
    using Cons.prems(5) by (simp add: apart_append apart_sym [of cdir])
  have 1: "lookup (disk ?w) cdir = Some (Dir es)"
    using Cons.prems(1) ap by (simp add: lookup_plant_apart)
  have 2: "lookup (disk ?w) LATEST_DIR = Some (Dir (done @ [(c, n)]))"
    using Cons.prems(4) fresh by (simp add: lookup_plant_child update_fresh)
  have 3: "es = (done @ [(c, n)]) @ todo" using Cons.prems(2) e by simp
  from Cons.IH [OF 1 3 Cons.prems(3) 2 Cons.prems(5)] step e show ?case
    by (simp add: seq_def bind_eval)
qed

lemma push_existing:
  assumes cid: "cid \<noteq> []" "\<not> prefix ''/'' cid"
    and ap': "apart (join COMMITS_DIR cid) LATEST_DIR"
    and c: "lookup (disk w) (join COMMITS_DIR cid) = Some (Dir es)"
    and d: "distinct (map fst es)"
    and nf: "\<not> is_file (disk w) LATEST_DIR"
  shows "fst (push cid w) = Inr ()
     \<and> lookup (disk (snd (push cid w))) LATEST_DIR = Some (Dir es)
     \<and> lookup (disk (snd (push cid w))) (join COMMITS_DIR cid) = Some (Dir es)"
proof -
  define cdir where "cdir = join COMMITS_DIR cid"
  from cid(2) have j: "cdir = COMMITS_DIR @ components cid" by (simp add: cdir_def join_def)
  from ap' have ap1: "apart cdir LATEST_DIR" by (simp add: cdir_def)
  then have ap: "apart LATEST_DIR cdir" by (simp add: apart_sym)
  from ap1 j have ne: "components cid \<noteq> []" by (auto simp: apart_def LATEST_DIR_def)
  from c have c0: "lookup (disk w) cdir = Some (Dir es)" by (simp add: cdir_def)
  from lookup_below_dir [OF c0 [unfolded j] ne] obtain xs where
    xs: "lookup (disk w) COMMITS_DIR = Some (Dir xs)" and "xs \<noteq> []" by blast
  with c0 cid(1) have sel: "push_select cid w = (Inr (Some (cid, cdir)), w)"
    by (simp add: push_select_def listdir_def path_exists_def ret_def Let_def cdir_def
        lookup_not_blocked)
  obtain w1 where r: "bind (path_exists LATEST_DIR)
        (\<lambda>e. if e then rmtree LATEST_DIR else ret ()) w = (Inr (), w1)"
    and l1: "lookup (disk w1) LATEST_DIR = None"
    and c1: "lookup (disk w1) cdir = Some (Dir es)"
  proof (cases "lookup (disk w) LATEST_DIR")
    case None
    with c0 that [of w] show ?thesis by (simp add: path_exists_def ret_def)
  next
    case (Some x)
    with nf obtain ys where ys: "lookup (disk w) LATEST_DIR = Some (Dir ys)"
      by (cases x) (auto simp: is_file_def)
    have "LATEST_DIR \<noteq> []" by (simp add: path_defs)
    with ys c0 ap that [of "w\<lparr>disk := prune LATEST_DIR (disk w), writes := Suc (writes w)\<rparr>"]
    show ?thesis
      by (simp add: path_exists_def rmtree_def modify_def lookup_prune_self
          lookup_prune_apart)
  qed
  from lookup_below_dir [OF c1 [unfolded j] ne] obtain zs where
    zs: "lookup (disk w1) COMMITS_DIR = Some (Dir zs)" by blast
  then have nb: "\<not> blocked (disk w1) LATEST_DIR"
    unfolding LATEST_DIR_def by (rule dir_not_blocked)
  let ?w2 = "w1\<lparr>disk := plant LATEST_DIR (Dir []) (disk w1), writes := Suc (writes w1)\<rparr>"
  from l1 nb have mk: "makedirs LATEST_DIR w1 = (Inr (), ?w2)"
    by (simp add: makedirs_def modify_def)
  from nb have l2: "lookup (disk ?w2) LATEST_DIR = Some (Dir [])"
    by (simp add: lookup_plant_self)
  from c1 ap have c2: "lookup (disk ?w2) cdir = Some (Dir es)"
    by (simp add: lookup_plant_apart)
  from c2 have ls: "listdir cdir ?w2 = (Inr (map fst es), ?w2)"
    by (simp add: listdir_def ret_def)
  from push_loop [OF c2 _ d l2 ap1, of es]
  obtain w3 where lp: "foreach (map fst es) (push_item cdir) ?w2 = (Inr (), w3)"
    and l3: "lookup (disk w3) LATEST_DIR = Some (Dir es)"
    and c3: "lookup (disk w3) cdir = Some (Dir es)"
    by (cases "foreach (map fst es) (push_item cdir) ?w2") auto
  have "push cid w = (Inr (), w3\<lparr>out := out w3 @ [Commit_pushed cid]\<rparr>)"
    unfolding push_def using sel r mk ls lp
    by (simp add: Let_def seq_def bind_eval print_def del: bind_assoc)
  with l3 c3 show ?thesis by (simp add: cdir_def)
qed

lemma nofile_write_file: "preserves (\<lambda>d. \<not> is_file d p) (write_file (p @ c # r) x)"
  unfolding write_file_def
  by (auto intro!: preserves_intros preserves_modify simp: not_file_plant_below)

lemma nofile_copytree: "preserves (\<lambda>d. \<not> is_file d p) (copytree src (p @ c # r))"
  unfolding copytree_def
  by (auto intro!: preserves_intros preserves_modify simp: not_file_plant_below
      split: option.splits node.splits)

lemma nofile_copy: "preserves (\<lambda>d. \<not> is_file d p) (copy src (p @ [c]))"
  unfolding copy_def Let_def
  by (auto intro!: preserves_intros preserves_isdir preserves_read_file nofile_write_file)

lemma nofile_rmtree: "p \<noteq> [] \<Longrightarrow> preserves (\<lambda>d. \<not> is_file d p) (rmtree p)"
  unfolding rmtree_def
  by (auto intro!: preserves_intros preserves_modify simp: is_file_def lookup_prune_self
      split: option.splits node.splits)

lemma nofile_makedirs: "preserves (\<lambda>d. \<not> is_file d p) (makedirs p)"
  unfolding preserves_def makedirs_def
  by (auto simp: raise_def modify_def is_file_def lookup_plant_self)

lemma nofile_push: "preserves (\<lambda>d. \<not> is_file d LATEST_DIR) (push cid)"
proof -
  have "LATEST_DIR \<noteq> []" by (simp add: path_defs)
  then show ?thesis
    unfolding push_def push_item_def Let_def
    by (auto intro!: preserves_intros preserves_prims preserves_push_select nofile_copy
        nofile_copytree nofile_rmtree nofile_makedirs split: option.splits prod.splits)
qed

text \<open>
  Two commits, the first of them pushed.
\<close>

definition es3 :: "(string \<times> node) list" where
  "es3 = [(''b.txt'', File (Raw ''bee'')), (''sub'', Dir [(''c'', File (Raw ''sea''))])]"

definition w3 :: world where
  "w3 = \<lparr>disk = Dir
          [(''b.txt'', File (Raw ''bee'')),
           (''.icvcs'', Dir
             [(''commits'', Dir [(''latest'', snap1), (''20240517093007'', snap1),
                                 (''20240517093008'', Dir es3)])])],
          out = [], writes = 0\<rparr>"

text \<open>
  C3: \<open>idB\<close> names an existing commit, that is a directory below \<open>commits\<close> other than
  the reserved \<open>latest\<close> (and neither above nor inside it), whose entries have distinct
  names as those of a directory do; the latest pointer is a directory or absent. Then
  after \<open>push(idA)\<close>, whatever it did, and \<open>push(idB)\<close>, the tree of the latest pointer
  is the tree of commit \<open>idB\<close>, entry for entry, and the commit itself is as before.
\<close>

theorem push_replaces_wholesale:
  assumes "cidB \<noteq> []" and "\<not> prefix ''/'' cidB"
    and "apart (join COMMITS_DIR cidB) LATEST_DIR"
    and "lookup (disk w) (join COMMITS_DIR cidB) = Some (Dir es)"
    and "distinct (map fst es)"
    and "\<not> is_file (disk w) LATEST_DIR"
  shows "fst (push cidB (snd (push cidA w))) = Inr ()
     \<and> lookup (disk (snd (push cidB (snd (push cidA w))))) LATEST_DIR = Some (Dir es)
     \<and> lookup (disk (snd (push cidB (snd (push cidA w))))) (join COMMITS_DIR cidB)
         = Some (Dir es)"
proof -
  have "apart LATEST_DIR (join COMMITS_DIR cidB)" using assms(3) by (simp add: apart_sym)
  then have "preserves (at (join COMMITS_DIR cidB) (\<lambda>n. n = Some (Dir es))) (push cidA)"
    by (rule preserves_push)
  with assms(4) have c: "lookup (disk (snd (push cidA w))) (join COMMITS_DIR cidB) = Some (Dir es)"
    by (simp add: preserves_def at_def)
  from nofile_push [of cidA] assms(6) have "\<not> is_file (disk (snd (push cidA w))) LATEST_DIR"
    by (simp add: preserves_def)
  with assms(1,2,3) c assms(5) show ?thesis by (intro push_existing)
qed

theorem push_replaces_wholesale_witness:
  "apart (join COMMITS_DIR ''20240517093008'') LATEST_DIR
   \<and> lookup (disk w3) (join COMMITS_DIR ''20240517093008'') = Some (Dir es3)
   \<and> distinct (map fst es3) \<and> \<not> is_file (disk w3) LATEST_DIR
   \<and> lookup (disk (snd (push ''20240517093008'' (snd (push ''20240517093007'' w3)))))
        LATEST_DIR = Some (Dir es3)"
  using push_replaces_wholesale [of "''20240517093008''" w3 es3 "''20240517093007''"]
  by (simp add: w3_def es3_def snap1_def is_file_def path_defs join_def)

section \<open>C6: a file that cannot be decoded\<close>

subsection \<open>The loop of \<open>compare_versions\<close>\<close>

lemma foreach_append: "foreach (xs @ ys) f = seq (foreach xs f) (foreach ys f)"
  by (induction xs) (simp_all add: seq_def)

lemma quiet_catch: "quiet m \<Longrightarrow> quiet h \<Longrightarrow> quiet (catch m e h)"
  unfolding quiet_def catch_def
  by (auto split: prod.splits sum.splits) (metis snd_conv)+

lemma quiet_read_file: "quiet (read_file p)"
  unfolding read_file_def
  by (auto intro!: quiet_intros split: option.splits node.splits)

lemma quiet_load_file_content: "quiet (load_file_content cd v f)"
  unfolding load_file_content_def read_text_def
  by (auto intro!: quiet_intros quiet_catch quiet_read_file split: content.splits option.splits)

lemma quiet_compare_file: "quiet (compare_file cd v1 v2 f)"
  unfolding compare_file_def Let_def
  by (auto intro!: quiet_intros quiet_load_file_content)

text \<open>A line of the report about the file \<open>g\<close>.\<close>

definition reports :: "path \<Rightarrow> msg \<Rightarrow> bool" where
  "reports g m = (m = No_changes_in_file g \<or> (\<exists>c1 c2. m = Changes_in_file g c1 c2))"

lemma load_file_content_out: "out (snd (load_file_content cd v f w)) = out w"
  unfolding load_file_content_def read_text_def read_file_def catch_def
  by (auto simp: raise_def ret_def split: prod.splits sum.splits option.splits node.splits
      content.splits)

lemma compare_file_out:
  "\<exists>ms. out (snd (compare_file cd v1 v2 g w)) = out w @ ms \<and> (\<forall>m \<in> set ms. reports g m)"
proof (cases "load_file_content cd v1 g w")
  case (Pair x w1)
  then have o1: "out w1 = out w" using load_file_content_out [of cd v1 g w] by simp
  show ?thesis
  proof (cases x)
    case (Inl e)
    with Pair o1 show ?thesis by (simp add: compare_file_def bind_Inl)
  next
    case (Inr c1)
    show ?thesis
    proof (cases "load_file_content cd v2 g w1")
      case p2: (Pair y w2)
      then have o2: "out w2 = out w" using load_file_content_out [of cd v2 g w1] o1 by simp
      show ?thesis
      proof (cases y)
        case (Inl e)
        with Pair Inr p2 o2 show ?thesis by (simp add: compare_file_def bind_eval bind_Inl)
      next
        case i2: (Inr c2)
        with Pair Inr p2 o2 show ?thesis
          by (simp add: compare_file_def bind_eval Let_def print_def reports_def)
      qed
    qed
  qed
qed

lemma compare_loop_out:
  "\<exists>ms. out (snd (foreach xs (compare_file cd v1 v2) w)) = out w @ ms
        \<and> (\<forall>m \<in> set ms. \<exists>g \<in> set xs. reports g m)"
proof (induction xs arbitrary: w)
  case Nil
  then show ?case by (simp add: ret_def)
next
  case (Cons g xs)
  obtain x w1 where s: "compare_file cd v1 v2 g w = (x, w1)" by fastforce
  from compare_file_out [of cd v1 v2 g w] s obtain ms where
    ms: "out w1 = out w @ ms" "\<forall>m \<in> set ms. reports g m" by auto
  show ?case
  proof (cases x)
    case (Inl e)
    with s ms show ?thesis by (auto simp: seq_def bind_Inl)
  next
    case (Inr u)
    from Cons.IH [of w1] obtain ms' where
      ms': "out (snd (foreach xs (compare_file cd v1 v2) w1)) = out w1 @ ms'"
        "\<forall>m \<in> set ms'. \<exists>g \<in> set xs. reports g m" by blast
    with s Inr ms show ?thesis
      by (auto simp: seq_def bind_eval intro!: exI [of _ "ms @ ms'"])
  qed
qed

text \<open>The file at \<open>p\<close> holds raw bytes that the codec cannot decode.\<close>

definition undecodable :: "codec \<Rightarrow> node \<Rightarrow> path \<Rightarrow> bool" where
  "undecodable cd d p = (case lookup d p of
       Some (File (Raw bytes)) \<Rightarrow> decode cd bytes = None
     | _ \<Rightarrow> False)"

lemma load_file_content_undecodable:
  "undecodable cd (disk w) (join VERSIONS_DIR v @ f) \<Longrightarrow>
     load_file_content cd v f w = (Inl UnicodeDecodeError, w)"
  unfolding undecodable_def load_file_content_def read_text_def read_file_def catch_def
  by (auto simp: raise_def split: option.splits node.splits content.splits)

lemma compare_file_undecodable:
  assumes "undecodable cd (disk w) (join VERSIONS_DIR v1 @ f)
         \<or> undecodable cd (disk w) (join VERSIONS_DIR v2 @ f)"
  shows "\<exists>e. compare_file cd v1 v2 f w = (Inl e, w)"
proof (cases "undecodable cd (disk w) (join VERSIONS_DIR v1 @ f)")
  case True
  then show ?thesis
    by (simp add: compare_file_def bind_Inl [OF load_file_content_undecodable])
next
  case False
  with assms have u2: "undecodable cd (disk w) (join VERSIONS_DIR v2 @ f)" by simp
  obtain x w1 where l: "load_file_content cd v1 f w = (x, w1)" by fastforce
  have d: "disk w1 = disk w" using quiet_load_file_content [of cd v1 f] l
    by (auto simp: quiet_def dest: spec [of _ w])
  have o: "out w1 = out w" using load_file_content_out [of cd v1 f w] l by simp
  have wr: "writes w1 = writes w" using quiet_load_file_content [of cd v1 f] l
    by (auto simp: quiet_def dest: spec [of _ w])
  from d o wr have w1: "w1 = w" by simp
  show ?thesis
  proof (cases x)
    case (Inl e)
    with l w1 show ?thesis by (simp add: compare_file_def bind_Inl)
  next
    case (Inr c)
    with l w1 u2 show ?thesis
      by (simp add: compare_file_def bind_eval bind_Inl [OF load_file_content_undecodable])
  qed
qed

lemma compare_loop_stops:
  assumes "undecodable cd (disk w) (join VERSIONS_DIR v1 @ f)
         \<or> undecodable cd (disk w) (join VERSIONS_DIR v2 @ f)"
  shows "\<exists>e ms. fst (foreach (pre @ f # post) (compare_file cd v1 v2) w) = Inl e
     \<and> out (snd (foreach (pre @ f # post) (compare_file cd v1 v2) w)) = out w @ ms
     \<and> (\<forall>m \<in> set ms. \<exists>g \<in> set pre. reports g m)"
proof -
  obtain x w1 where p: "foreach pre (compare_file cd v1 v2) w = (x, w1)" by fastforce
  from compare_loop_out [of pre cd v1 v2 w] p obtain ms where
    ms: "out w1 = out w @ ms" "\<forall>m \<in> set ms. \<exists>g \<in> set pre. reports g m" by auto
  have "quiet (foreach pre (compare_file cd v1 v2))"
    by (induction pre) (simp_all add: quiet_ret quiet_seq quiet_compare_file)
  with p have d: "disk w1 = disk w" by (auto simp: quiet_def dest: spec [of _ w])
  show ?thesis
  proof (cases x)
    case (Inl e)
    with p ms show ?thesis by (auto simp: foreach_append seq_def bind_Inl)
  next
    case (Inr u)
    from compare_file_undecodable [of cd w1 v1 f v2] assms d obtain e where
      "compare_file cd v1 v2 f w1 = (Inl e, w1)" by auto
    with p Inr ms show ?thesis
      by (auto simp: foreach_append seq_def bind_eval bind_Inl)
  qed
qed


lemma load_version_files_ok:
  assumes "lookup (disk w) (join VERSIONS_DIR v @ [''metadata.json''])
             = Some (File (Json (VersionMeta m)))"
  shows "load_version_files v w = (Inr (Some (v_files m)), w)"
  using assms
  by (simp add: load_version_files_def read_json_def read_file_def catch_def ret_def)

lemma reports_same: "reports g m \<Longrightarrow> reports g' m \<Longrightarrow> g = g'"
  by (auto simp: reports_def)

text \<open>ASCII as the platform's encoding; no document is read as text below.\<close>

definition ascii :: codec where
  "ascii = \<lparr>decode = (\<lambda>s. if list_all (\<lambda>c. of_char c < (128::nat)) s then Some s else None),
            dumps = (\<lambda>j. [])\<rparr>"

definition files6 :: "path list" where
  "files6 = [[''a.bin''], [''b.txt'']]"

definition meta6 :: "string \<Rightarrow> version_meta" where
  "meta6 v = \<lparr>version_name = v, created_at = ''2024-05-17T09:30:07.000012'',
              v_author = ''Unknown'', description = ''No description provided'',
              v_files = files6\<rparr>"

text \<open>
  Two versions of the files \<open>a.bin\<close> and \<open>b.txt\<close>; \<open>a.bin\<close> of version \<open>v1\<close> holds the
  byte \<open>0xFF\<close>, and \<open>b.txt\<close> differs between the versions.
\<close>

definition w6 :: world where
  "w6 = \<lparr>disk = Dir
          [(''.icvcs'', Dir
             [(''versions'', Dir
                [(''v1'', Dir [(''a.bin'', File (Raw [CHR 0xFF])),
                               (''b.txt'', File (Raw ''one'')),
                               (''metadata.json'', File (Json (VersionMeta (meta6 ''v1''))))]),
                 (''v2'', Dir [(''a.bin'', File (Raw ''ok'')),
                               (''b.txt'', File (Raw ''two'')),
                               (''metadata.json'', File (Json (VersionMeta (meta6 ''v2''))))])])])],
          out = [], writes = 0\<rparr>"

lemma sorted_files6: "sort_key path_str (remdups (files6 @ files6)) = [] @ [''a.bin''] # [[''b.txt'']]"
  by (simp add: files6_def less_eq_char_def less_char_def)

text \<open>
  C6, as the claim states it, fails: \<open>load_file_content\<close> catches \<open>FileNotFoundError\<close>
  only, so the \<open>UnicodeDecodeError\<close> of \<open>a.bin\<close> leaves \<open>compare_versions\<close>. Nothing is
  reported for \<open>a.bin\<close>, and \<open>b.txt\<close>, which differs between the versions, is never
  compared.
\<close>

theorem compare_aborts_whole_comparison:
  "compare_versions ascii ''v1'' ''v2'' w6
     = (Inl UnicodeDecodeError,
        w6\<lparr>out := [Printed_file_lists (Some files6) (Some files6), Comparing ''v1'' ''v2'']\<rparr>)"
proof -
  have lv1: "load_version_files ''v1'' w6 = (Inr (Some files6), w6)"
    using load_version_files_ok [of w6 "''v1''" "meta6 ''v1''"]
    by (simp add: w6_def meta6_def path_defs join_def)
  have lv2: "load_version_files ''v2'' w6 = (Inr (Some files6), w6)"
    using load_version_files_ok [of w6 "''v2''" "meta6 ''v2''"]
    by (simp add: w6_def meta6_def path_defs join_def)
  have lf: "load_file_content ascii ''v1'' [''a.bin''] (w6\<lparr>out := x\<rparr>)
              = (Inl UnicodeDecodeError, w6\<lparr>out := x\<rparr>)" for x
    by (rule load_file_content_undecodable)
       (simp add: undecodable_def w6_def ascii_def path_defs join_def)
  have cf: "compare_file ascii ''v1'' ''v2'' [''a.bin''] (w6\<lparr>out := x\<rparr>)
              = (Inl UnicodeDecodeError, w6\<lparr>out := x\<rparr>)" for x
    using lf [of x] by (simp add: compare_file_def bind_Inl)
  show ?thesis
    using lv1 lv2 cf sorted_files6
    by (simp add: compare_versions_def bind_eval bind_Inl seq_def w6_def)
qed

text \<open>
  C6, amended: when a file of the union of the two file lists holds bytes that cannot
  be decoded, in either version, \<open>compare_versions\<close> does not complete: it ends in an
  exception, and what it has printed by then are report lines of files sorted before
  that file only, none of the file itself or of a file sorted after it.
\<close>

theorem compare_stops_at_undecodable:
  assumes m1: "lookup (disk w) (join VERSIONS_DIR v1 @ [''metadata.json''])
                 = Some (File (Json (VersionMeta m1)))"
    and m2: "lookup (disk w) (join VERSIONS_DIR v2 @ [''metadata.json''])
                 = Some (File (Json (VersionMeta m2)))"
    and l: "sort_key path_str (remdups (v_files m1 @ v_files m2)) = pre @ f # post"
    and u: "undecodable cd (disk w) (join VERSIONS_DIR v1 @ f)
          \<or> undecodable cd (disk w) (join VERSIONS_DIR v2 @ f)"
  shows "\<exists>e ms. fst (compare_versions cd v1 v2 w) = Inl e
     \<and> out (snd (compare_versions cd v1 v2 w))
         = out w @ [Printed_file_lists (Some (v_files m1)) (Some (v_files m2)),
                    Comparing v1 v2] @ ms
     \<and> (\<forall>m \<in> set ms. \<exists>g \<in> set pre. reports g m)
     \<and> (\<forall>m \<in> set ms. \<forall>g \<in> set (f # post). \<not> reports g m)"
proof -
  let ?w = "w\<lparr>out := out w @ [Printed_file_lists (Some (v_files m1)) (Some (v_files m2)),
                               Comparing v1 v2]\<rparr>"
  have c: "compare_versions cd v1 v2 w = foreach (pre @ f # post) (compare_file cd v1 v2) ?w"
    using l load_version_files_ok [OF m1] load_version_files_ok [OF m2]
    by (simp add: compare_versions_def bind_eval seq_def)
  from compare_loop_stops [of cd ?w v1 f v2 pre post] u obtain e ms where
    r: "fst (foreach (pre @ f # post) (compare_file cd v1 v2) ?w) = Inl e"
      "out (snd (foreach (pre @ f # post) (compare_file cd v1 v2) ?w)) = out ?w @ ms"
      "\<forall>m \<in> set ms. \<exists>g \<in> set pre. reports g m"
    by auto
  have "distinct (sort_key path_str (remdups (v_files m1 @ v_files m2)))" by simp
  with l have d: "set pre \<inter> set (f # post) = {}" by auto
  have "\<forall>m \<in> set ms. \<forall>g \<in> set (f # post). \<not> reports g m"
  proof (intro ballI notI)
    fix m g assume "m \<in> set ms" and g: "g \<in> set (f # post)" and rg: "reports g m"
    with r(3) obtain g' where "g' \<in> set pre" and "reports g' m" by blast
    with rg have "g \<in> set pre" by (auto dest: reports_same)
    with g d show False by auto
  qed
  with r c show ?thesis by auto
qed

theorem compare_stops_at_undecodable_witness:
  "lookup (disk w6) (join VERSIONS_DIR ''v1'' @ [''metadata.json''])
     = Some (File (Json (VersionMeta (meta6 ''v1''))))
   \<and> lookup (disk w6) (join VERSIONS_DIR ''v2'' @ [''metadata.json''])
     = Some (File (Json (VersionMeta (meta6 ''v2''))))
   \<and> undecodable ascii (disk w6) (join VERSIONS_DIR ''v1'' @ [''a.bin''])
   \<and> (\<exists>e. fst (compare_versions ascii ''v1'' ''v2'' w6) = Inl e)"
  using compare_stops_at_undecodable [of w6 "''v1''" "meta6 ''v1''" "''v2''" "meta6 ''v2''"
      "[]" "[''a.bin'']" "[[''b.txt'']]" ascii] sorted_files6
  by (auto simp add: w6_def meta6_def undecodable_def ascii_def path_defs join_def)


section \<open>C10: snapshots do not depend on the capture lists\<close>

subsection \<open>Runs that differ in the index document only\<close>


text \<open>
  Two results agree: the same outcome, the same output, and the same tree except for the
  index document.
\<close>

definition alike :: "world \<Rightarrow> world \<Rightarrow> bool" where
  "alike u v = (out u = out v
     \<and> (\<forall>q. apart repo_data_path q \<longrightarrow> lookup (disk u) q = lookup (disk v) q))"

definition agree :: "(exc + 'a) \<times> world \<Rightarrow> (exc + 'a) \<times> world \<Rightarrow> bool" where
  "agree x y = (fst x = fst y \<and> alike (snd x) (snd y))"





lemma agree_save: "agree (save_repo_data r w) (save_repo_data r' w)"
  unfolding save_repo_data_def write_file_def seq_def
  by (auto simp: agree_def alike_def raise_def modify_def print_def lookup_plant_apart)










end
